theory Spec2Isabelle
  imports Complex_Main "HOL-Library.Word"
begin

section \<open>Data read from the cluster\<close>

text \<open>
  The terminator (\<^verbatim>\<open>main.go\<close>) talks to the Kubernetes API and to the metrics API.
  Go's \<^verbatim>\<open>int\<close> (on the 64-bit targets the image is built for), \<^verbatim>\<open>int64\<close> and
  \<^verbatim>\<open>time.Duration\<close> are 64-bit words; \<^verbatim>\<open>+\<close> and \<^verbatim>\<open>*\<close> wrap around and comparison
  is signed (\<open>\<le>s\<close>, \<open><s\<close>). A \<^verbatim>\<open>resource.Quantity\<close> is represented by its \<^verbatim>\<open>Value()\<close>.
  An instant of the clock is a number of nanoseconds.
\<close>

type_synonym int64 = "64 word"
type_synonym int32 = "32 word"
type_synonym labels = "(string \<times> string) list"
type_synonym resource_list = "string \<rightharpoonup> int64"
type_synonym time = int

text \<open>
  An \<^verbatim>\<open>error\<close> returned by a client call is \<open>NotFound\<close> (\<^verbatim>\<open>errors.IsNotFound\<close> holds) or
  some other failure. A nil pointer dereference is a panic, which ends the function
  as well; it is the third value.
\<close>

datatype error = NotFound | ApiFailure string | NilPointerDereference

fun IsNotFound :: "error \<Rightarrow> bool" where
  "IsNotFound NotFound = True"
| "IsNotFound _ = False"

record container =
  Limits :: resource_list

record pod =
  Name :: string
  Namespace :: string
  Containers :: "container list"
  Phase :: string
  DeletionGracePeriodSeconds :: "int64 option"

record service =
  Selector :: labels

text \<open>
  \<^verbatim>\<open>deployment.Spec.Selector\<close> and \<^verbatim>\<open>deployment.Spec.Replicas\<close> are pointers:
  \<open>None\<close> is nil.
\<close>

record deployment =
  MatchLabels :: "labels option"
  Replicas :: "int32 option"

record container_metrics =
  Usage :: resource_list

record pod_metrics =
  MetricsContainers :: "container_metrics list"

text \<open>\<^verbatim>\<open>ResourceList.Memory()\<close>: the quantity under the key \<^verbatim>\<open>memory\<close>, zero when absent.\<close>

definition Memory :: "resource_list \<Rightarrow> int64" where
  "Memory rl = (case rl ''memory'' of Some q \<Rightarrow> q | None \<Rightarrow> 0)"

record list_options =
  LabelSelector :: labels
  Limit :: int

text \<open>
  The answers of the API server during one resolution of the candidate pods: what
  \<^verbatim>\<open>Pods(ns).List\<close>, \<^verbatim>\<open>Services(ns).Get\<close> and \<^verbatim>\<open>Deployments(ns).Get\<close> return for a request.
\<close>

record cluster =
  pods_List :: "string \<Rightarrow> list_options \<Rightarrow> error + pod list"
  services_Get :: "string \<Rightarrow> string \<Rightarrow> error + service"
  deployments_Get :: "string \<Rightarrow> string \<Rightarrow> error + deployment"


section \<open>Pod resolution: \<^verbatim>\<open>getPods\<close>\<close>

text \<open>
  The first loop of \<^verbatim>\<open>getPods\<close>, over \<^verbatim>\<open>serviceNames\<close>; \<open>pods\<close> is \<^verbatim>\<open>pods.Items\<close>. The
  typed client returns an object also when it returns an error, so the log line that
  reads its name on \<^verbatim>\<open>IsNotFound\<close> does nothing but log. The lines of \<^verbatim>\<open>logrus\<close> are
  left out throughout.
\<close>

fun service_loop :: "cluster \<Rightarrow> string \<Rightarrow> string list \<Rightarrow> pod list \<Rightarrow> error + pod list" where
  "service_loop api ns [] pods = Inr pods"
| "service_loop api ns (name # names) pods =
     (case services_Get api ns name of
        Inl err \<Rightarrow>
          if IsNotFound err then service_loop api ns names pods
          else Inl err
      | Inr service \<Rightarrow>
          (case pods_List api ns \<lparr>LabelSelector = Selector service, Limit = 0\<rparr> of
             Inl err \<Rightarrow> Inl err
           | Inr servicePods \<Rightarrow> service_loop api ns names (pods @ servicePods)))"

text \<open>The count of the inner loop: the pods whose phase is \<^verbatim>\<open>Running\<close>.\<close>

definition running_count :: "pod list \<Rightarrow> int" where
  "running_count ps = int (length (filter (\<lambda>p. Phase p = ''Running'') ps))"

text \<open>
  The second loop, over \<^verbatim>\<open>deploymentNames\<close>. The selector is dereferenced before the
  pods are listed and the replica count after, each without a nil check.
\<close>

fun deployment_loop :: "cluster \<Rightarrow> string \<Rightarrow> string list \<Rightarrow> pod list \<Rightarrow> error + pod list" where
  "deployment_loop api ns [] pods = Inr pods"
| "deployment_loop api ns (name # names) pods =
     (case deployments_Get api ns name of
        Inl err \<Rightarrow>
          if IsNotFound err then deployment_loop api ns names pods
          else Inl err
      | Inr deployment \<Rightarrow>
          (case MatchLabels deployment of
             None \<Rightarrow> Inl NilPointerDereference
           | Some labelset \<Rightarrow>
               (case pods_List api ns \<lparr>LabelSelector = labelset, Limit = 0\<rparr> of
                  Inl err \<Rightarrow> Inl err
                | Inr deploymentPods \<Rightarrow>
                    (case Replicas deployment of
                       None \<Rightarrow> Inl NilPointerDereference
                     | Some replicas \<Rightarrow>
                         if running_count deploymentPods \<ge> sint replicas
                         then deployment_loop api ns names (pods @ deploymentPods)
                         else deployment_loop api ns names pods))))"

definition getPods :: "cluster \<Rightarrow> string \<Rightarrow> string list \<Rightarrow> string list \<Rightarrow> error + pod list" where
  "getPods api ns services deployments =
     (if length services = 0 \<and> length deployments = 0
      then pods_List api ns \<lparr>LabelSelector = [], Limit = 10\<rparr>
      else
        (case service_loop api ns services [] of
           Inl err \<Rightarrow> Inl err
         | Inr pods \<Rightarrow> deployment_loop api ns deployments pods))"


section \<open>Memory utilisation in \<^verbatim>\<open>float64\<close>\<close>

text \<open>
  \<^verbatim>\<open>percentage := float64(using.Value()) / float64(limit.Value()) * 100\<close> is computed in
  IEEE 754 binary64. A value is a finite number, an infinity or not-a-number. The
  rounding of a result to binary64 is the parameter \<open>rnd\<close> of the operations, so every
  statement below holds for whatever the rounding is. Zeros carry no sign here: the
  only divisor of the program is a converted integer, never \<^verbatim>\<open>-0\<close>.
\<close>

datatype float64 = Finite rat | PosInf | NegInf | NaN

definition float64_of_int64 :: "(rat \<Rightarrow> rat) \<Rightarrow> int64 \<Rightarrow> float64" where
  "float64_of_int64 rnd v = Finite (rnd (of_int (sint v)))"

fun float64_div :: "(rat \<Rightarrow> rat) \<Rightarrow> float64 \<Rightarrow> float64 \<Rightarrow> float64" where
  "float64_div rnd NaN _ = NaN"
| "float64_div rnd _ NaN = NaN"
| "float64_div rnd (Finite x) (Finite y) =
     (if y = 0 then (if x = 0 then NaN else if 0 < x then PosInf else NegInf)
      else Finite (rnd (x / y)))"
| "float64_div rnd (Finite x) _ = Finite 0"
| "float64_div rnd PosInf (Finite y) = (if 0 \<le> y then PosInf else NegInf)"
| "float64_div rnd NegInf (Finite y) = (if 0 \<le> y then NegInf else PosInf)"
| "float64_div rnd _ _ = NaN"

fun float64_mul :: "(rat \<Rightarrow> rat) \<Rightarrow> float64 \<Rightarrow> float64 \<Rightarrow> float64" where
  "float64_mul rnd NaN _ = NaN"
| "float64_mul rnd _ NaN = NaN"
| "float64_mul rnd (Finite x) (Finite y) = Finite (rnd (x * y))"
| "float64_mul rnd PosInf (Finite y) = (if y = 0 then NaN else if 0 < y then PosInf else NegInf)"
| "float64_mul rnd NegInf (Finite y) = (if y = 0 then NaN else if 0 < y then NegInf else PosInf)"
| "float64_mul rnd (Finite x) PosInf = (if x = 0 then NaN else if 0 < x then PosInf else NegInf)"
| "float64_mul rnd (Finite x) NegInf = (if x = 0 then NaN else if 0 < x then NegInf else PosInf)"
| "float64_mul rnd PosInf PosInf = PosInf"
| "float64_mul rnd NegInf NegInf = PosInf"
| "float64_mul rnd _ _ = NegInf"

text \<open>\<^verbatim>\<open>a >= b\<close>: false as soon as one side is not-a-number.\<close>

fun float64_ge :: "float64 \<Rightarrow> float64 \<Rightarrow> bool" where
  "float64_ge NaN _ = False"
| "float64_ge _ NaN = False"
| "float64_ge (Finite x) (Finite y) = (y \<le> x)"
| "float64_ge PosInf _ = True"
| "float64_ge _ NegInf = True"
| "float64_ge _ _ = False"

definition percentage_of :: "(rat \<Rightarrow> rat) \<Rightarrow> int64 \<Rightarrow> int64 \<Rightarrow> float64" where
  "percentage_of rnd using limit =
     float64_mul rnd
       (float64_div rnd (float64_of_int64 rnd using) (float64_of_int64 rnd limit))
       (Finite 100)"


section \<open>The loop of \<^verbatim>\<open>Terminate\<close>\<close>

text \<open>
  The parameters of \<^verbatim>\<open>Terminate\<close> and the \<^verbatim>\<open>dryRun\<close> field of the terminator. The two
  durations are in nanoseconds. The field \<^verbatim>\<open>at\<close> of \<^verbatim>\<open>overLimit\<close> is \<open>at_time\<close> here.
\<close>

record config =
  namespace :: string
  memoryLimit :: int64
  killAfter :: int64
  serviceNames :: "string list"
  deploymentNames :: "string list"
  sleep :: int64
  killSleep :: int64
  dryRun :: bool

record overLimit =
  at_time :: time
  count :: int64

text \<open>
  What the program does to the outside, in order: the metrics request for a pod, the two
  \<^verbatim>\<open>log.Printf\<close> lines (over the limit; deleting), the delete request with its grace period
  and the calls of \<^verbatim>\<open>time.Sleep\<close>.
\<close>

datatype event =
    MetricsGet string string
  | LogOverLimit string
  | LogDeleting string
  | PodDelete string string "int64 option"
  | Sleep int64

text \<open>
  What the outside answers while the pod at one position of \<^verbatim>\<open>pods.Items\<close> is evaluated:
  the result of the metrics request, the reading of \<^verbatim>\<open>time.Now()\<close> and the result of the
  delete request (\<open>None\<close> is a nil error). Each is consulted only if the program gets
  there.
\<close>

record probe =
  metrics_Get :: "error + pod_metrics"
  time_Now :: time
  pods_Delete :: "error option"

text \<open>
  One iteration of the \<^verbatim>\<open>for\<close> loop receives the cluster that \<^verbatim>\<open>getPods\<close> reads, a probe
  for each position of the candidate list, and the clock at the moment the expiry loop
  examines the record of a pod name.
\<close>

record env =
  apiserver :: cluster
  probes :: "nat \<Rightarrow> probe"
  expiry_clock :: "string \<Rightarrow> time"

text \<open>The two variables the loop over the pods changes.\<close>

record tracker =
  podsToKill :: "string \<rightharpoonup> overLimit"
  killed :: bool

text \<open>
  The record of a pod after one more observation over the limit: an existing record has
  its count incremented, a new one starts at \<^verbatim>\<open>time.Now()\<close> with count 0.
\<close>

definition observe :: "time \<Rightarrow> overLimit option \<Rightarrow> overLimit" where
  "observe now entry =
     (case entry of
        Some over \<Rightarrow> over\<lparr>count := count over + 1\<rparr>
      | None \<Rightarrow> \<lparr>at_time = now, count = 0\<rparr>)"

text \<open>
  The body of \<^verbatim>\<open>for _, pod := range pods.Items\<close>. The first component is \<open>Inr\<close> of the
  variables with which the loop goes on (also after \<^verbatim>\<open>continue\<close>) or \<open>Inl\<close> of the error
  returned; the second is what the body did to the outside.
\<close>

definition pod_body ::
  "(rat \<Rightarrow> rat) \<Rightarrow> config \<Rightarrow> probe \<Rightarrow> pod \<Rightarrow> tracker \<Rightarrow> (error + tracker) \<times> event list" where
  "pod_body rnd c pr pod s =
     (case Containers pod of
        [] \<Rightarrow> (Inr s, [])
      | container0 # _ \<Rightarrow>
          if Phase pod \<noteq> ''Running'' \<or> killed s then (Inr s, [])
          else
            let limit = Memory (Limits container0);
                request = MetricsGet (Namespace pod) (Name pod)
            in
            (case metrics_Get pr of
               Inl err \<Rightarrow> if IsNotFound err then (Inr s, [request]) else (Inl err, [request])
             | Inr podMetrics \<Rightarrow>
                 (case MetricsContainers podMetrics of
                    [] \<Rightarrow> (Inr s, [request])
                  | metrics0 # _ \<Rightarrow>
                      let using = Memory (Usage metrics0);
                          percentage = percentage_of rnd using limit
                      in
                      if float64_ge percentage (float64_of_int64 rnd (memoryLimit c)) then
                        let over = observe (time_Now pr) (podsToKill s (Name pod));
                            s' = s\<lparr>podsToKill := (podsToKill s)(Name pod \<mapsto> over)\<rparr>;
                            done = s'\<lparr>podsToKill := (podsToKill s')(Name pod := None),
                                      killed := True\<rparr>
                        in
                        if killAfter c \<le>s count over then
                          if \<not> dryRun c then
                            (case pods_Delete pr of
                               Some err \<Rightarrow>
                                 (Inl err,
                                  [request, LogOverLimit (Name pod), LogDeleting (Name pod),
                                   PodDelete (Namespace pod) (Name pod) (DeletionGracePeriodSeconds pod)])
                             | None \<Rightarrow>
                                 (Inr done,
                                  [request, LogOverLimit (Name pod), LogDeleting (Name pod),
                                   PodDelete (Namespace pod) (Name pod) (DeletionGracePeriodSeconds pod),
                                   Sleep (killSleep c)]))
                          else
                            (Inr done,
                             [request, LogOverLimit (Name pod), LogDeleting (Name pod),
                              Sleep (killSleep c)])
                        else (Inr s', [request, LogOverLimit (Name pod)])
                      else (Inr s, [request]))))"

text \<open>The loop over \<^verbatim>\<open>pods.Items\<close>, from position \<open>i\<close> on.\<close>

fun pod_loop ::
  "(rat \<Rightarrow> rat) \<Rightarrow> config \<Rightarrow> (nat \<Rightarrow> probe) \<Rightarrow> nat \<Rightarrow> pod list \<Rightarrow> tracker
     \<Rightarrow> (error + tracker) \<times> event list" where
  "pod_loop rnd c prs i [] s = (Inr s, [])"
| "pod_loop rnd c prs i (pod # pods) s =
     (case pod_body rnd c (prs i) pod s of
        (Inl err, evs) \<Rightarrow> (Inl err, evs)
      | (Inr s', evs) \<Rightarrow>
          (case pod_loop rnd c prs (Suc i) pods s' of
             (result, evs') \<Rightarrow> (result, evs @ evs')))"

text \<open>
  \<^verbatim>\<open>time.Since(t)\<close> is the clock minus \<open>t\<close>, saturated to the range of a duration.
\<close>

definition time_Since :: "time \<Rightarrow> time \<Rightarrow> int64" where
  "time_Since now t = word_of_int (max (- (2 ^ 63)) (min (2 ^ 63 - 1) (now - t)))"

text \<open>The test of the expiry loop: \<^verbatim>\<open>time.Since(over.at) > killSleep*time.Duration(over.count+1)\<close>.\<close>

definition expired :: "config \<Rightarrow> time \<Rightarrow> overLimit \<Rightarrow> bool" where
  "expired c now over = (killSleep c * (count over + 1) <s time_Since now (at_time over))"

text \<open>
  \<^verbatim>\<open>for pod, over := range podsToKill\<close> visits every entry once, in no fixed order, and
  deletes only the entry it is at: each record is decided on its own.
\<close>

definition expire ::
  "config \<Rightarrow> (string \<Rightarrow> time) \<Rightarrow> (string \<rightharpoonup> overLimit) \<Rightarrow> (string \<rightharpoonup> overLimit)" where
  "expire c clock m =
     (\<lambda>pod. case m pod of
               None \<Rightarrow> None
             | Some over \<Rightarrow> if expired c (clock pod) over then None else Some over)"

text \<open>One pass through the body of \<^verbatim>\<open>for { ... }\<close>, from the map it starts with.\<close>

definition iteration ::
  "(rat \<Rightarrow> rat) \<Rightarrow> config \<Rightarrow> env \<Rightarrow> (string \<rightharpoonup> overLimit)
     \<Rightarrow> (error + (string \<rightharpoonup> overLimit)) \<times> event list" where
  "iteration rnd c e m =
     (case getPods (apiserver e) (namespace c) (serviceNames c) (deploymentNames c) of
        Inl err \<Rightarrow> (Inl err, [])
      | Inr pods \<Rightarrow>
          (case pod_loop rnd c (probes e) 0 pods \<lparr>podsToKill = m, killed = False\<rparr> of
             (Inl err, evs) \<Rightarrow> (Inl err, evs)
           | (Inr s, evs) \<Rightarrow>
               (Inr (expire c (expiry_clock e) (podsToKill s)), evs @ [Sleep (sleep c)])))"

text \<open>
  The loop has no exit but \<^verbatim>\<open>return err\<close>. A run is driven by the environments of its
  first iterations: \<open>Inr\<close> is the map after them, the loop still going, \<open>Inl\<close> the error
  returned. The events come one list per iteration.
\<close>

fun Terminate_loop ::
  "(rat \<Rightarrow> rat) \<Rightarrow> config \<Rightarrow> env list \<Rightarrow> (string \<rightharpoonup> overLimit)
     \<Rightarrow> (error + (string \<rightharpoonup> overLimit)) \<times> event list list" where
  "Terminate_loop rnd c [] m = (Inr m, [])"
| "Terminate_loop rnd c (e # es) m =
     (case iteration rnd c e m of
        (Inl err, evs) \<Rightarrow> (Inl err, [evs])
      | (Inr m', evs) \<Rightarrow>
          (case Terminate_loop rnd c es m' of
             (result, history) \<Rightarrow> (result, evs # history)))"

text \<open>\<^verbatim>\<open>Terminate\<close> starts from \<^verbatim>\<open>make(map[string]*overLimit)\<close>.\<close>

definition Terminate ::
  "(rat \<Rightarrow> rat) \<Rightarrow> config \<Rightarrow> env list
     \<Rightarrow> (error + (string \<rightharpoonup> overLimit)) \<times> event list list" where
  "Terminate rnd c es = Terminate_loop rnd c es Map.empty"


section \<open>Reading a result\<close>

text \<open>
  Tests on events, the events from the first kill decision on, whether a delete request
  was sent for a pod name, and the record a result holds for a pod name.
\<close>

fun is_PodDelete :: "event \<Rightarrow> bool" where
  "is_PodDelete (PodDelete ns name grace) = True"
| "is_PodDelete _ = False"

fun is_LogDeleting :: "event \<Rightarrow> bool" where
  "is_LogDeleting (LogDeleting name) = True"
| "is_LogDeleting _ = False"

fun is_MetricsGet :: "event \<Rightarrow> bool" where
  "is_MetricsGet (MetricsGet ns name) = True"
| "is_MetricsGet _ = False"



definition after_kill :: "event list \<Rightarrow> event list" where
  "after_kill evs = dropWhile (\<lambda>ev. \<not> is_LogDeleting ev) evs"

text \<open>
  At most one kill decision and one delete request, and no metrics request from the
  kill decision on.
\<close>

definition one_kill :: "event list \<Rightarrow> bool" where
  "one_kill evs =
     (length (filter is_LogDeleting evs) \<le> 1 \<and>
      length (filter is_PodDelete evs) \<le> 1 \<and>
      filter is_MetricsGet (after_kill evs) = [])"

fun deletes :: "string \<Rightarrow> event \<Rightarrow> bool" where
  "deletes name (PodDelete ns name' grace) = (name' = name)"
| "deletes name _ = False"

definition delete_requested :: "string \<Rightarrow> event list \<Rightarrow> bool" where
  "delete_requested name evs = list_ex (deletes name) evs"

definition tracked ::
  "(error + (string \<rightharpoonup> overLimit)) \<times> 'a \<Rightarrow> string \<Rightarrow> overLimit option" where
  "tracked result name = (case fst result of Inl err \<Rightarrow> None | Inr m \<Rightarrow> m name)"


section \<open>What a filter contributes\<close>

text \<open>
  The description of the resolver, filter by filter: a service or deployment filter
  resolves when its lookup is not found or when every call made for it succeeds, and it
  then contributes the pods listed for it (none when it was not found; for a deployment,
  none when fewer pods run than it desires).
\<close>

definition service_resolves :: "cluster \<Rightarrow> string \<Rightarrow> string \<Rightarrow> bool" where
  "service_resolves api ns name =
     (case services_Get api ns name of
        Inl err \<Rightarrow> IsNotFound err
      | Inr service \<Rightarrow>
          (case pods_List api ns \<lparr>LabelSelector = Selector service, Limit = 0\<rparr> of
             Inl err \<Rightarrow> False
           | Inr servicePods \<Rightarrow> True))"

definition service_pods :: "cluster \<Rightarrow> string \<Rightarrow> string \<Rightarrow> pod list" where
  "service_pods api ns name =
     (case services_Get api ns name of
        Inl err \<Rightarrow> []
      | Inr service \<Rightarrow>
          (case pods_List api ns \<lparr>LabelSelector = Selector service, Limit = 0\<rparr> of
             Inl err \<Rightarrow> []
           | Inr servicePods \<Rightarrow> servicePods))"

definition deployment_resolves :: "cluster \<Rightarrow> string \<Rightarrow> string \<Rightarrow> bool" where
  "deployment_resolves api ns name =
     (case deployments_Get api ns name of
        Inl err \<Rightarrow> IsNotFound err
      | Inr deployment \<Rightarrow>
          (case MatchLabels deployment of
             None \<Rightarrow> False
           | Some labelset \<Rightarrow>
               (case pods_List api ns \<lparr>LabelSelector = labelset, Limit = 0\<rparr> of
                  Inl err \<Rightarrow> False
                | Inr deploymentPods \<Rightarrow> Replicas deployment \<noteq> None)))"

definition deployment_pods :: "cluster \<Rightarrow> string \<Rightarrow> string \<Rightarrow> pod list" where
  "deployment_pods api ns name =
     (case deployments_Get api ns name of
        Inl err \<Rightarrow> []
      | Inr deployment \<Rightarrow>
          (case MatchLabels deployment of
             None \<Rightarrow> []
           | Some labelset \<Rightarrow>
               (case pods_List api ns \<lparr>LabelSelector = labelset, Limit = 0\<rparr> of
                  Inl err \<Rightarrow> []
                | Inr deploymentPods \<Rightarrow>
                    (case Replicas deployment of
                       None \<Rightarrow> []
                     | Some replicas \<Rightarrow>
                         if sint replicas \<le> running_count deploymentPods
                         then deploymentPods else []))))"


section \<open>A small cluster\<close>

text \<open>
  Concrete inputs on which the statements below are evaluated. In namespace \<open>prod\<close> the
  service \<open>web\<close> and the deployment \<open>web\<close> select the same pod; the deployment \<open>api\<close>
  desires three pods and has two running; \<open>db\<close> desires two and has two; \<open>bare\<close> has no
  replica count; \<open>gone\<close> is not found and every other name is refused. Without a filter
  the namespace lists the single pod \<open>hog\<close>. Every pod has a limit of 1024 bytes, and
  the usages are 1024, 512 and 0: their percentages 100, 50 and the comparison with 95
  are exact in binary64, so the rounding \<open>exact\<close>, which changes nothing, is the
  rounding of the machine on these inputs.
\<close>

definition exact :: "rat \<Rightarrow> rat" where
  "exact x = x"

definition demo_pod :: "string \<Rightarrow> string \<Rightarrow> pod" where
  "demo_pod name phase =
     \<lparr>Name = name, Namespace = ''prod'',
      Containers = [\<lparr>Limits = [''memory'' \<mapsto> 1024]\<rparr>],
      Phase = phase, DeletionGracePeriodSeconds = Some 30\<rparr>"

definition demo_cluster :: cluster where
  "demo_cluster =
     \<lparr>pods_List = (\<lambda>ns opts.
        if LabelSelector opts = [(''app'', ''web'')] then Inr [demo_pod ''web-1'' ''Running'']
        else if LabelSelector opts = [(''app'', ''api'')]
          then Inr [demo_pod ''api-1'' ''Running'', demo_pod ''api-2'' ''Running'',
                    demo_pod ''api-3'' ''Pending'']
        else if LabelSelector opts = [(''app'', ''db'')]
          then Inr [demo_pod ''db-1'' ''Running'', demo_pod ''db-2'' ''Running'']
        else if LabelSelector opts = [] then Inr [demo_pod ''hog'' ''Running'']
        else Inr []),
      services_Get = (\<lambda>ns name.
        if name = ''web'' then Inr \<lparr>Selector = [(''app'', ''web'')]\<rparr>
        else if name = ''gone'' then Inl NotFound
        else Inl (ApiFailure ''forbidden'')),
      deployments_Get = (\<lambda>ns name.
        if name = ''web'' then Inr \<lparr>MatchLabels = Some [(''app'', ''web'')], Replicas = Some 1\<rparr>
        else if name = ''api'' then Inr \<lparr>MatchLabels = Some [(''app'', ''api'')], Replicas = Some 3\<rparr>
        else if name = ''db'' then Inr \<lparr>MatchLabels = Some [(''app'', ''db'')], Replicas = Some 2\<rparr>
        else if name = ''bare'' then Inr \<lparr>MatchLabels = Some [(''app'', ''bare'')], Replicas = None\<rparr>
        else if name = ''gone'' then Inl NotFound
        else Inl (ApiFailure ''forbidden''))\<rparr>"

text \<open>
  A probe that reports \<open>used\<close> bytes at time \<open>t\<close> and accepts a delete request, and the
  environment of an iteration in which every probe is that one and the expiry loop runs
  at \<open>t\<close> as well. In \<open>refusing\<close> the delete request is refused.
\<close>

definition sample :: "int64 \<Rightarrow> time \<Rightarrow> probe" where
  "sample used t =
     \<lparr>metrics_Get = Inr \<lparr>MetricsContainers = [\<lparr>Usage = [''memory'' \<mapsto> used]\<rparr>]\<rparr>,
      time_Now = t, pods_Delete = None\<rparr>"

definition world :: "int64 \<Rightarrow> time \<Rightarrow> env" where
  "world used t =
     \<lparr>apiserver = demo_cluster, probes = (\<lambda>i. sample used t), expiry_clock = (\<lambda>pod. t)\<rparr>"

definition refusing :: "int64 \<Rightarrow> time \<Rightarrow> env" where
  "refusing used t =
     \<lparr>apiserver = demo_cluster,
      probes = (\<lambda>i. (sample used t)\<lparr>pods_Delete := Some (ApiFailure ''forbidden'')\<rparr>),
      expiry_clock = (\<lambda>pod. t)\<rparr>"

text \<open>
  The flags: the defaults (limit 95, both sleeps one second) with kill-after 2 and no
  filter. \<open>slow_poll\<close> polls every five seconds instead.
\<close>

definition flags :: config where
  "flags =
     \<lparr>namespace = ''prod'', memoryLimit = 95, killAfter = 2, serviceNames = [],
      deploymentNames = [], sleep = 1000000000, killSleep = 1000000000, dryRun = False\<rparr>"

definition slow_poll :: config where
  "slow_poll = flags\<lparr>sleep := 5000000000\<rparr>"

definition both_filters :: config where
  "both_filters = flags\<lparr>serviceNames := [''web''], deploymentNames := [''web''], killAfter := 5\<rparr>"

definition eager :: config where
  "eager = flags\<lparr>killAfter := 0\<rparr>"

text \<open>A pod whose container declares no memory limit.\<close>

definition unlimited :: pod where
  "unlimited =
     \<lparr>Name = ''free'', Namespace = ''prod'', Containers = [\<lparr>Limits = Map.empty\<rparr>],
      Phase = ''Running'', DeletionGracePeriodSeconds = None\<rparr>"


text \<open>
  A cancelled context reaches \<^verbatim>\<open>Terminate\<close> as the error with which a call made with it
  returns; \<^verbatim>\<open>time.Sleep\<close> takes no context and the loop never reads it. In \<open>cancelled\<close>
  every call is answered so; in \<open>interrupted\<close> the pods are still listed and the
  metrics request is the first call to be cut off.
\<close>

definition canceled :: error where
  "canceled = ApiFailure ''context canceled''"

definition cancelled :: env where
  "cancelled =
     \<lparr>apiserver = \<lparr>pods_List = (\<lambda>ns opts. Inl canceled),
                    services_Get = (\<lambda>ns name. Inl canceled),
                    deployments_Get = (\<lambda>ns name. Inl canceled)\<rparr>,
      probes = (\<lambda>i. \<lparr>metrics_Get = Inl canceled, time_Now = 0, pods_Delete = Some canceled\<rparr>),
      expiry_clock = (\<lambda>pod. 0)\<rparr>"

definition interrupted :: env where
  "interrupted = \<lparr>apiserver = demo_cluster, probes = probes cancelled, expiry_clock = (\<lambda>pod. 0)\<rparr>"

text \<open>A namespace whose only pod is \<open>free\<close>, the pod without memory limit.\<close>

definition free_cluster :: cluster where
  "free_cluster =
     \<lparr>pods_List = (\<lambda>ns opts. Inr [unlimited]),
      services_Get = (\<lambda>ns name. Inl NotFound),
      deployments_Get = (\<lambda>ns name. Inl NotFound)\<rparr>"

definition free_world :: "int64 \<Rightarrow> time \<Rightarrow> env" where
  "free_world used t =
     \<lparr>apiserver = free_cluster, probes = (\<lambda>i. sample used t), expiry_clock = (\<lambda>pod. t)\<rparr>"


section \<open>Properties of the resolver\<close>

lemma deployment_loop_append:
  "deployment_loop api ns (xs @ ys) pods =
     (case deployment_loop api ns xs pods of
        Inl err \<Rightarrow> Inl err
      | Inr pods' \<Rightarrow> deployment_loop api ns ys pods')"
  by (induction xs arbitrary: pods) (auto split: sum.splits option.splits)

lemma service_loop_resolves:
  "list_all (service_resolves api ns) names \<Longrightarrow>
   service_loop api ns names pods = Inr (pods @ concat (map (service_pods api ns) names))"
proof (induction names arbitrary: pods)
  case Nil
  then show ?case by simp
next
  case (Cons name names)
  then show ?case
    by (auto simp: service_resolves_def service_pods_def split: sum.splits)
qed

lemma deployment_loop_resolves:
  "list_all (deployment_resolves api ns) names \<Longrightarrow>
   deployment_loop api ns names pods = Inr (pods @ concat (map (deployment_pods api ns) names))"
proof (induction names arbitrary: pods)
  case Nil
  then show ?case by simp
next
  case (Cons name names)
  then show ?case
    by (auto simp: deployment_resolves_def deployment_pods_def split: sum.splits option.splits)
qed

lemma service_loop_aborts:
  "name \<in> set names \<Longrightarrow> services_Get api ns name = Inl err \<Longrightarrow> \<not> IsNotFound err \<Longrightarrow>
   \<exists>failure. service_loop api ns names pods = Inl failure"
proof (induction names arbitrary: pods)
  case Nil
  then show ?case by simp
next
  case (Cons n names)
  show ?case
  proof (cases "n = name")
    case True
    with Cons.prems show ?thesis by simp
  next
    case False
    with Cons.prems have "name \<in> set names" by simp
    from Cons.IH [OF this Cons.prems(2,3)] show ?thesis
      by (auto split: sum.splits)
  qed
qed

lemma deployment_loop_aborts:
  "name \<in> set names \<Longrightarrow> deployments_Get api ns name = Inl err \<Longrightarrow> \<not> IsNotFound err \<Longrightarrow>
   \<exists>failure. deployment_loop api ns names pods = Inl failure"
proof (induction names arbitrary: pods)
  case Nil
  then show ?case by simp
next
  case (Cons n names)
  show ?case
  proof (cases "n = name")
    case True
    with Cons.prems show ?thesis by simp
  next
    case False
    with Cons.prems have "name \<in> set names" by simp
    from Cons.IH [OF this Cons.prems(2,3)] show ?thesis
      by (auto split: sum.splits option.splits)
  qed
qed

text \<open>
  Claim C5. With at least one filter given: when every filter is either not found or
  answered without error, resolution returns, and its result is the pods of the
  filters in order, a filter that was not found contributing nothing; when some service
  or deployment lookup fails with an error other than not found, resolution returns no
  pods but a failure.
\<close>

theorem getPods_skips_not_found:
  assumes "services \<noteq> [] \<or> deployments \<noteq> []"
  shows "(list_all (service_resolves api ns) services \<and>
          list_all (deployment_resolves api ns) deployments \<longrightarrow>
            getPods api ns services deployments =
              Inr (concat (map (service_pods api ns) services) @
                   concat (map (deployment_pods api ns) deployments)))
       \<and> ((\<exists>name \<in> set services. \<exists>err.
              services_Get api ns name = Inl err \<and> \<not> IsNotFound err) \<or>
          (\<exists>name \<in> set deployments. \<exists>err.
              deployments_Get api ns name = Inl err \<and> \<not> IsNotFound err) \<longrightarrow>
            (\<exists>failure. getPods api ns services deployments = Inl failure))"
proof (intro conjI impI)
  assume "list_all (service_resolves api ns) services \<and>
          list_all (deployment_resolves api ns) deployments"
  then show "getPods api ns services deployments =
              Inr (concat (map (service_pods api ns) services) @
                   concat (map (deployment_pods api ns) deployments))"
    using assms by (auto simp: getPods_def service_loop_resolves deployment_loop_resolves)
next
  assume "(\<exists>name \<in> set services. \<exists>err.
              services_Get api ns name = Inl err \<and> \<not> IsNotFound err) \<or>
          (\<exists>name \<in> set deployments. \<exists>err.
              deployments_Get api ns name = Inl err \<and> \<not> IsNotFound err)"
  then show "\<exists>failure. getPods api ns services deployments = Inl failure"
  proof
    assume "\<exists>name \<in> set services. \<exists>err.
              services_Get api ns name = Inl err \<and> \<not> IsNotFound err"
    then obtain name err where
      "name \<in> set services" "services_Get api ns name = Inl err" "\<not> IsNotFound err"
      by blast
    from service_loop_aborts [OF this]
    obtain failure where "service_loop api ns services [] = Inl failure"
      by blast
    with \<open>name \<in> set services\<close> show ?thesis by (auto simp: getPods_def)
  next
    assume "\<exists>name \<in> set deployments. \<exists>err.
              deployments_Get api ns name = Inl err \<and> \<not> IsNotFound err"
    then obtain name err where *:
      "name \<in> set deployments" "deployments_Get api ns name = Inl err" "\<not> IsNotFound err"
      by blast
    show ?thesis
    proof (cases "service_loop api ns services []")
      case (Inl failure)
      with * show ?thesis by (auto simp: getPods_def)
    next
      case (Inr pods)
      from deployment_loop_aborts [OF *]
      obtain failure where "deployment_loop api ns deployments pods = Inl failure"
        by blast
      with Inr * show ?thesis by (auto simp: getPods_def)
    qed
  qed
qed

text \<open>
  On the small cluster: the filters \<open>gone\<close> are skipped and \<open>web\<close> still contributes its
  pod; the refused service \<open>locked\<close> makes resolution fail.
\<close>

theorem getPods_skips_not_found_witness:
  "getPods demo_cluster ''prod'' [''gone'', ''web''] [''gone''] = Inr [demo_pod ''web-1'' ''Running'']
   \<and> (\<exists>failure. getPods demo_cluster ''prod'' [''web'', ''locked''] [] = Inl failure)"
proof -
  have ne: "[''gone'', ''web''] \<noteq> [] \<or> [''gone''] \<noteq> []" by simp
  have ok: "list_all (service_resolves demo_cluster ''prod'') [''gone'', ''web''] \<and>
            list_all (deployment_resolves demo_cluster ''prod'') [''gone'']"
    by (simp add: service_resolves_def deployment_resolves_def demo_cluster_def)
  have pods: "concat (map (service_pods demo_cluster ''prod'') [''gone'', ''web'']) @
              concat (map (deployment_pods demo_cluster ''prod'') [''gone''])
              = [demo_pod ''web-1'' ''Running'']"
    by (simp add: service_pods_def deployment_pods_def demo_cluster_def)
  have ne': "[''web'', ''locked''] \<noteq> [] \<or> ([]::string list) \<noteq> []" by simp
  have bad: "\<exists>name \<in> set [''web'', ''locked'']. \<exists>err.
               services_Get demo_cluster ''prod'' name = Inl err \<and> \<not> IsNotFound err"
    by (simp add: demo_cluster_def)
  from getPods_skips_not_found [OF ne, of demo_cluster "''prod''"] ok pods
  have first: "getPods demo_cluster ''prod'' [''gone'', ''web''] [''gone'']
                 = Inr [demo_pod ''web-1'' ''Running'']"
    by simp
  from getPods_skips_not_found [OF ne', of demo_cluster "''prod''"] bad
  have second: "\<exists>failure. getPods demo_cluster ''prod'' [''web'', ''locked''] [] = Inl failure"
    by blast
  from first second show ?thesis by blast
qed




text \<open>
  Claim C10. The desired replica count is dereferenced with no nil check: when
  resolution reaches a deployment filter whose deployment and pods are fetched and the
  deployment has no replica count, resolution ends in a nil pointer dereference; the
  deployment is neither skipped nor is an error returned.
\<close>

theorem getPods_nil_replicas_panics:
  assumes "service_loop api ns services [] = Inr pods0"
    and "deployment_loop api ns before pods0 = Inr pods1"
    and "deployments_Get api ns name = Inr d"
    and "MatchLabels d = Some labelset"
    and "pods_List api ns \<lparr>LabelSelector = labelset, Limit = 0\<rparr> = Inr ps"
    and "Replicas d = None"
  shows "getPods api ns services (before @ name # rest) = Inl NilPointerDereference"
  using assms by (simp add: getPods_def deployment_loop_append)

text \<open>The deployment \<open>bare\<close> after the service \<open>web\<close>, before the deployment \<open>api\<close>.\<close>

theorem getPods_nil_replicas_panics_witness:
  "Replicas \<lparr>MatchLabels = Some [(''app'', ''bare'')], Replicas = None\<rparr> = None
   \<and> getPods demo_cluster ''prod'' [''web''] [''bare'', ''api''] = Inl NilPointerDereference"
proof -
  let ?d = "\<lparr>MatchLabels = Some [(''app'', ''bare'')], Replicas = (None :: int32 option)\<rparr>"
  have h1: "service_loop demo_cluster ''prod'' [''web''] [] = Inr [demo_pod ''web-1'' ''Running'']"
    by (simp add: demo_cluster_def)
  have h2: "deployment_loop demo_cluster ''prod'' [] [demo_pod ''web-1'' ''Running'']
              = Inr [demo_pod ''web-1'' ''Running'']"
    by simp
  have h3: "deployments_Get demo_cluster ''prod'' ''bare'' = Inr ?d"
    by (simp add: demo_cluster_def)
  have h4: "MatchLabels ?d = Some [(''app'', ''bare'')]" by simp
  have h5: "pods_List demo_cluster ''prod'' \<lparr>LabelSelector = [(''app'', ''bare'')], Limit = 0\<rparr> = Inr []"
    by (simp add: demo_cluster_def)
  have h6: "Replicas ?d = None" by simp
  from getPods_nil_replicas_panics [OF h1 h2 h3 h4 h5 h6, of "[''api'']"] h6 show ?thesis
    by simp
qed


section \<open>Properties of the loop over the pods\<close>

lemmas run_defs = Terminate_def iteration_def getPods_def pod_body_def Memory_def
  percentage_of_def float64_of_int64_def expire_def expired_def time_Since_def observe_def
  word_sle_eq word_sless_alt running_count_def tracked_def
  flags_def slow_poll_def both_filters_def eager_def world_def refusing_def sample_def
  demo_cluster_def demo_pod_def exact_def unlimited_def
  canceled_def cancelled_def interrupted_def free_cluster_def free_world_def

text \<open>Once \<^verbatim>\<open>killed\<close> is set, the body does nothing for any further pod.\<close>

lemma pod_body_killed: "killed s \<Longrightarrow> pod_body rnd c pr pod s = (Inr s, [])"
  by (simp add: pod_body_def split: list.splits)

lemma pod_loop_killed: "killed s \<Longrightarrow> pod_loop rnd c prs i pods s = (Inr s, [])"
  by (induction pods arbitrary: i) (simp_all add: pod_body_killed)

text \<open>The ways through the body, with what each leaves behind.\<close>

lemma pod_body_cases:
  "pod_body rnd c pr pod s = (Inr s, [])
   \<or> pod_body rnd c pr pod s = (Inr s, [MetricsGet (Namespace pod) (Name pod)])
   \<or> (\<exists>err. pod_body rnd c pr pod s = (Inl err, [MetricsGet (Namespace pod) (Name pod)]))
   \<or> (\<not> killed s \<and> \<not> killAfter c \<le>s count (observe (time_Now pr) (podsToKill s (Name pod))) \<and>
       pod_body rnd c pr pod s =
        (Inr (s\<lparr>podsToKill := (podsToKill s)(Name pod \<mapsto> observe (time_Now pr) (podsToKill s (Name pod)))\<rparr>),
         [MetricsGet (Namespace pod) (Name pod), LogOverLimit (Name pod)]))
   \<or> (\<not> killed s \<and> killAfter c \<le>s count (observe (time_Now pr) (podsToKill s (Name pod))) \<and>
       \<not> dryRun c \<and>
       (\<exists>err. pod_body rnd c pr pod s =
          (Inl err, [MetricsGet (Namespace pod) (Name pod), LogOverLimit (Name pod), LogDeleting (Name pod),
                     PodDelete (Namespace pod) (Name pod) (DeletionGracePeriodSeconds pod)])))
   \<or> (\<not> killed s \<and> killAfter c \<le>s count (observe (time_Now pr) (podsToKill s (Name pod))) \<and>
       pod_body rnd c pr pod s =
          (Inr (s\<lparr>podsToKill := (podsToKill s)(Name pod := None), killed := True\<rparr>),
           [MetricsGet (Namespace pod) (Name pod), LogOverLimit (Name pod), LogDeleting (Name pod)] @
           (if dryRun c then []
            else [PodDelete (Namespace pod) (Name pod) (DeletionGracePeriodSeconds pod)]) @
           [Sleep (killSleep c)]))"
  by (simp add: pod_body_def Let_def split: list.splits sum.splits option.splits)

text \<open>
  The body on the record of one name: untouched when the name was not logged over the
  limit, and otherwise observed once, then deleted if the count reached \<^verbatim>\<open>killAfter\<close>.
\<close>

lemma pod_body_unobserved:
  assumes "pod_body rnd c pr pod s = (Inr s', evs)" and "LogOverLimit name \<notin> set evs"
  shows "podsToKill s' name = podsToKill s name \<and> LogDeleting name \<notin> set evs"
  using pod_body_cases [of rnd c pr pod s] assms by (auto split: if_splits)

lemma pod_body_observed:
  assumes "pod_body rnd c pr pod s = (Inr s', evs)" and "LogOverLimit name \<in> set evs"
  shows "count_list evs (LogOverLimit name) = 1 \<and>
         (if killAfter c \<le>s count (observe (time_Now pr) (podsToKill s name))
          then podsToKill s' name = None \<and> killed s' \<and> LogDeleting name \<in> set evs
          else podsToKill s' name = Some (observe (time_Now pr) (podsToKill s name))
               \<and> LogDeleting name \<notin> set evs)"
  using pod_body_cases [of rnd c pr pod s] assms by (auto split: if_splits)

lemma pod_loop_unobserved:
  "pod_loop rnd c prs i pods s = (Inr s', evs) \<Longrightarrow> LogOverLimit name \<notin> set evs \<Longrightarrow>
   podsToKill s' name = podsToKill s name \<and> LogDeleting name \<notin> set evs"
proof (induction pods arbitrary: i s evs)
  case Nil
  then show ?case by simp
next
  case (Cons pod pods)
  from Cons.prems(1) obtain s1 evs1 evs2 where
    body: "pod_body rnd c (prs i) pod s = (Inr s1, evs1)"
    and rest: "pod_loop rnd c prs (Suc i) pods s1 = (Inr s', evs2)"
    and evs: "evs = evs1 @ evs2"
    by (auto split: prod.splits sum.splits)
  from Cons.prems(2) evs have "LogOverLimit name \<notin> set evs1" "LogOverLimit name \<notin> set evs2"
    by auto
  with pod_body_unobserved [OF body] Cons.IH [OF rest] evs show ?case by auto
qed

lemma pod_loop_observed_once:
  "pod_loop rnd c prs i pods s = (Inr s', evs) \<Longrightarrow> count_list evs (LogOverLimit name) = 1 \<Longrightarrow>
   \<exists>j. (if killAfter c \<le>s count (observe (time_Now (prs j)) (podsToKill s name))
        then podsToKill s' name = None \<and> LogDeleting name \<in> set evs
        else podsToKill s' name = Some (observe (time_Now (prs j)) (podsToKill s name))
             \<and> LogDeleting name \<notin> set evs)"
proof (induction pods arbitrary: i s evs)
  case Nil
  then show ?case by simp
next
  case (Cons pod pods)
  from Cons.prems(1) obtain s1 evs1 evs2 where
    body: "pod_body rnd c (prs i) pod s = (Inr s1, evs1)"
    and rest: "pod_loop rnd c prs (Suc i) pods s1 = (Inr s', evs2)"
    and evs: "evs = evs1 @ evs2"
    by (auto split: prod.splits sum.splits)
  show ?case
  proof (cases "LogOverLimit name \<in> set evs1")
    case True
    note obs = pod_body_observed [OF body True]
    with Cons.prems(2) evs have "count_list evs2 (LogOverLimit name) = 0" by simp
    then have "LogOverLimit name \<notin> set evs2" by (simp add: count_list_0_iff)
    from pod_loop_unobserved [OF rest this] obs evs show ?thesis
      by (intro exI [of _ i]) (auto split: if_splits)
  next
    case False
    then have "count_list evs1 (LogOverLimit name) = 0" by (simp add: count_list_0_iff)
    with Cons.prems(2) evs have "count_list evs2 (LogOverLimit name) = 1" by simp
    from Cons.IH [OF rest this] pod_body_unobserved [OF body False] evs show ?thesis
      by (auto split: if_splits)
  qed
qed

text \<open>A delete request goes out exactly with a kill decision, unless the run is dry.\<close>

lemma pod_body_delete_requested:
  "delete_requested name (snd (pod_body rnd c pr pod s)) =
     (\<not> dryRun c \<and> LogDeleting name \<in> set (snd (pod_body rnd c pr pod s)))"
  using pod_body_cases [of rnd c pr pod s]
  by (auto simp: delete_requested_def split: if_splits)

lemma delete_requested_append:
  "delete_requested name (xs @ ys) = (delete_requested name xs \<or> delete_requested name ys)"
  by (simp add: delete_requested_def)

lemma pod_loop_delete_requested:
  "delete_requested name (snd (pod_loop rnd c prs i pods s)) =
     (\<not> dryRun c \<and> LogDeleting name \<in> set (snd (pod_loop rnd c prs i pods s)))"
proof (induction pods arbitrary: i s)
  case Nil
  show ?case by (simp add: delete_requested_def)
next
  case (Cons pod pods)
  obtain r evs1 where body: "pod_body rnd c (prs i) pod s = (r, evs1)"
    by (cases "pod_body rnd c (prs i) pod s")
  from pod_body_delete_requested [of name rnd c "prs i" pod s] body
  have b: "delete_requested name evs1 = (\<not> dryRun c \<and> LogDeleting name \<in> set evs1)" by simp
  show ?case
  proof (cases r)
    case (Inl err)
    with body b show ?thesis by simp
  next
    case (Inr s1)
    obtain r2 evs2 where rest: "pod_loop rnd c prs (Suc i) pods s1 = (r2, evs2)"
      by (cases "pod_loop rnd c prs (Suc i) pods s1")
    from Cons.IH [of "Suc i" s1] rest
    have "delete_requested name evs2 = (\<not> dryRun c \<and> LogDeleting name \<in> set evs2)" by simp
    with b body Inr rest show ?thesis by (auto simp: delete_requested_append)
  qed
qed

lemma iteration_delete_requested:
  "delete_requested name (snd (iteration rnd c e m)) =
     (\<not> dryRun c \<and> LogDeleting name \<in> set (snd (iteration rnd c e m)))"
proof (cases "getPods (apiserver e) (namespace c) (serviceNames c) (deploymentNames c)")
  case (Inl err)
  then show ?thesis by (simp add: iteration_def delete_requested_def)
next
  case (Inr pods)
  obtain r evs where loop:
    "pod_loop rnd c (probes e) 0 pods \<lparr>podsToKill = m, killed = False\<rparr> = (r, evs)"
    by (cases "pod_loop rnd c (probes e) 0 pods \<lparr>podsToKill = m, killed = False\<rparr>")
  from pod_loop_delete_requested [of name rnd c "probes e" 0 pods "\<lparr>podsToKill = m, killed = False\<rparr>"] loop
  have "delete_requested name evs = (\<not> dryRun c \<and> LogDeleting name \<in> set evs)" by simp
  with Inr loop show ?thesis
    by (cases r) (auto simp: iteration_def delete_requested_def)
qed

lemma Terminate_loop_delete_requested:
  "\<forall>evs \<in> set (snd (Terminate_loop rnd c es m)).
     delete_requested name evs = (\<not> dryRun c \<and> LogDeleting name \<in> set evs)"
proof (induction es arbitrary: m)
  case Nil
  show ?case by simp
next
  case (Cons e es)
  obtain r evs where it: "iteration rnd c e m = (r, evs)"
    by (cases "iteration rnd c e m")
  from iteration_delete_requested [of name rnd c e m] it
  have b: "delete_requested name evs = (\<not> dryRun c \<and> LogDeleting name \<in> set evs)" by simp
  show ?case
  proof (cases r)
    case (Inl err)
    with it b show ?thesis by simp
  next
    case (Inr m1)
    obtain r2 h where rest: "Terminate_loop rnd c es m1 = (r2, h)"
      by (cases "Terminate_loop rnd c es m1")
    from Cons.IH [of m1] rest b it Inr show ?thesis by simp
  qed
qed

lemma Terminate_loop_length:
  "Terminate_loop rnd c es m = (Inr m', history) \<Longrightarrow> length history = length es"
proof (induction es arbitrary: m history)
  case Nil
  then show ?case by simp
next
  case (Cons e es)
  from Cons.prems obtain m1 evs1 h where
    "iteration rnd c e m = (Inr m1, evs1)"
    and rest: "Terminate_loop rnd c es m1 = (Inr m', h)"
    and history: "history = evs1 # h"
    by (auto split: sum.splits prod.splits)
  with Cons.IH [OF rest] show ?case by simp
qed



section \<open>One kill per iteration\<close>

lemma pod_body_one_kill:
  "one_kill (snd (pod_body rnd c pr pod s)) \<and>
   (filter is_LogDeleting (snd (pod_body rnd c pr pod s)) = []
      \<longrightarrow> filter is_PodDelete (snd (pod_body rnd c pr pod s)) = []) \<and>
   (\<forall>s'. fst (pod_body rnd c pr pod s) = Inr s' \<and> \<not> killed s'
      \<longrightarrow> filter is_LogDeleting (snd (pod_body rnd c pr pod s)) = [])"
  using pod_body_cases [of rnd c pr pod s]
  by (auto simp: one_kill_def after_kill_def)

lemma after_kill_append:
  "filter is_LogDeleting xs = [] \<Longrightarrow> after_kill (xs @ ys) = after_kill ys"
  by (induction xs) (auto simp: after_kill_def split: if_splits)

lemma pod_loop_one_kill:
  "one_kill (snd (pod_loop rnd c prs i pods s)) \<and>
   (filter is_LogDeleting (snd (pod_loop rnd c prs i pods s)) = []
      \<longrightarrow> filter is_PodDelete (snd (pod_loop rnd c prs i pods s)) = [])"
proof (induction pods arbitrary: i s)
  case Nil
  show ?case by (simp add: one_kill_def after_kill_def)
next
  case (Cons pod pods)
  obtain r evs1 where body: "pod_body rnd c (prs i) pod s = (r, evs1)"
    by (cases "pod_body rnd c (prs i) pod s")
  note b = pod_body_one_kill [of rnd c "prs i" pod s, unfolded body, simplified]
  show ?case
  proof (cases r)
    case (Inl err)
    with body b show ?thesis by simp
  next
    case (Inr s1)
    obtain r2 evs2 where rest: "pod_loop rnd c prs (Suc i) pods s1 = (r2, evs2)"
      by (cases "pod_loop rnd c prs (Suc i) pods s1")
    note ih = Cons.IH [of "Suc i" s1, unfolded rest, simplified]
    show ?thesis
    proof (cases "killed s1")
      case True
      with rest have "evs2 = []" by (simp add: pod_loop_killed)
      with body Inr rest b show ?thesis by simp
    next
      case False
      with b Inr have none: "filter is_LogDeleting evs1 = []" by simp
      with b have none': "filter is_PodDelete evs1 = []" by simp
      from none none' ih body Inr rest show ?thesis
        by (simp add: one_kill_def after_kill_append)
    qed
  qed
qed

lemma after_kill_snoc_Sleep:
  "filter is_MetricsGet (after_kill (evs @ [Sleep d])) = filter is_MetricsGet (after_kill evs)"
  by (induction evs) (auto simp: after_kill_def)

lemma iteration_one_kill:
  "one_kill (snd (iteration rnd c e m))"
proof -
  show ?thesis
  proof (cases "getPods (apiserver e) (namespace c) (serviceNames c) (deploymentNames c)")
    case (Inl err)
    then show ?thesis by (simp add: iteration_def one_kill_def after_kill_def)
  next
    case (Inr pods)
    obtain r evs where loop: "pod_loop rnd c (probes e) 0 pods \<lparr>podsToKill = m, killed = False\<rparr> = (r, evs)"
      by (cases "pod_loop rnd c (probes e) 0 pods \<lparr>podsToKill = m, killed = False\<rparr>")
    from pod_loop_one_kill [of rnd c "probes e" 0 pods "\<lparr>podsToKill = m, killed = False\<rparr>"] loop
    have "one_kill evs" by simp
    then have "one_kill (evs @ [Sleep (sleep c)])"
      by (simp add: one_kill_def after_kill_snoc_Sleep)
    with \<open>one_kill evs\<close> Inr loop show ?thesis
      by (cases r) (simp_all add: iteration_def)
  qed
qed

text \<open>
  Claim C2. In one iteration, whatever the candidates and their usage, there is at most
  one kill decision and at most one delete request, and from the kill decision on no
  further pod is sampled: no metrics request follows it.
\<close>

theorem one_kill_per_iteration:
  "length (filter is_LogDeleting (snd (iteration rnd c e m))) \<le> 1
   \<and> length (filter is_PodDelete (snd (iteration rnd c e m))) \<le> 1
   \<and> filter is_MetricsGet (after_kill (snd (iteration rnd c e m))) = []"
  using iteration_one_kill [of rnd c e m] by (simp add: one_kill_def)

text \<open>
  Two pods of the deployment \<open>db\<close> at 100 percent with kill-after 0: the first is
  deleted, the second is not even sampled.
\<close>

theorem one_kill_per_iteration_witness:
  "snd (iteration exact (eager\<lparr>deploymentNames := [''db'']\<rparr>) (world 1024 0) Map.empty)
     = [MetricsGet ''prod'' ''db-1'', LogOverLimit ''db-1'', LogDeleting ''db-1'',
        PodDelete ''prod'' ''db-1'' (Some 30), Sleep 1000000000, Sleep 1000000000]
   \<and> length (filter is_PodDelete
         (snd (iteration exact (eager\<lparr>deploymentNames := [''db'']\<rparr>) (world 1024 0) Map.empty))) \<le> 1
   \<and> filter is_MetricsGet (after_kill
         (snd (iteration exact (eager\<lparr>deploymentNames := [''db'']\<rparr>) (world 1024 0) Map.empty))) = []"
proof -
  have evs: "snd (iteration exact (eager\<lparr>deploymentNames := [''db'']\<rparr>) (world 1024 0) Map.empty)
     = [MetricsGet ''prod'' ''db-1'', LogOverLimit ''db-1'', LogDeleting ''db-1'',
        PodDelete ''prod'' ''db-1'' (Some 30), Sleep 1000000000, Sleep 1000000000]"
    by (simp add: run_defs)
  from one_kill_per_iteration [of exact "eager\<lparr>deploymentNames := [''db'']\<rparr>" "world 1024 0" Map.empty]
    evs show ?thesis by blast
qed



section \<open>The observation that kills\<close>

lemma sint_of_nat_64: "n < 2 ^ 63 \<Longrightarrow> sint (of_nat n :: 64 word) = int n"
  apply (simp add: signed_of_nat)
  apply (rule signed_take_bit_int_eq_self)
   apply simp_all
  done

lemma sle_of_nat_64:
  assumes "sint (k :: 64 word) = int kn" and "n \<le> kn"
  shows "(k \<le>s of_nat n) = (kn = n)"
proof -
  have "sint k < 2 ^ 63" using sint_less [of k] by simp
  with assms have "int n < 2 ^ 63" by linarith
  then have "n < 2 ^ 63" by simp
  then have "sint (of_nat n :: 64 word) = int n" by (rule sint_of_nat_64)
  with assms show ?thesis by (auto simp: word_sle_eq)
qed

lemma iteration_observed_once:
  assumes "iteration rnd c e m = (Inr m', evs)"
    and "count_list evs (LogOverLimit name) = 1"
  shows "\<exists>j. (LogDeleting name \<in> set evs) =
                (killAfter c \<le>s count (observe (time_Now (probes e j)) (m name)))
            \<and> m' name =
                (if killAfter c \<le>s count (observe (time_Now (probes e j)) (m name))
                    \<or> expired c (expiry_clock e name) (observe (time_Now (probes e j)) (m name))
                 then None else Some (observe (time_Now (probes e j)) (m name)))"
proof -
  from assms(1) obtain pods s evs0 where
    loop: "pod_loop rnd c (probes e) 0 pods \<lparr>podsToKill = m, killed = False\<rparr> = (Inr s, evs0)"
    and m': "m' = expire c (expiry_clock e) (podsToKill s)"
    and evs: "evs = evs0 @ [Sleep (sleep c)]"
    by (auto simp: iteration_def split: sum.splits prod.splits)
  from assms(2) evs have cnt: "count_list evs0 (LogOverLimit name) = 1" by simp
  have sel: "podsToKill \<lparr>podsToKill = m, killed = False\<rparr> = m" by simp
  from pod_loop_observed_once [OF loop cnt, unfolded sel] have
    "\<exists>j. if killAfter c \<le>s count (observe (time_Now (probes e j)) (m name))
     then podsToKill s name = None \<and> LogDeleting name \<in> set evs0
     else podsToKill s name = Some (observe (time_Now (probes e j)) (m name))
          \<and> LogDeleting name \<notin> set evs0" .
  then obtain j where
    "if killAfter c \<le>s count (observe (time_Now (probes e j)) (m name))
     then podsToKill s name = None \<and> LogDeleting name \<in> set evs0
     else podsToKill s name = Some (observe (time_Now (probes e j)) (m name))
          \<and> LogDeleting name \<notin> set evs0"
    by blast
  then show ?thesis
    using m' evs by (intro exI [of _ j]) (auto simp: expire_def split: if_splits)
qed

lemma streak_continues:
  assumes k: "sint (killAfter c) = int k"
  shows "Terminate_loop rnd c es m = (Inr m', history) \<Longrightarrow>
    m name = Some \<lparr>at_time = t0, count = of_nat n\<rparr> \<Longrightarrow>
    n + length es \<le> k \<Longrightarrow>
    (\<forall>evs \<in> set history. count_list evs (LogOverLimit name) = 1) \<Longrightarrow>
    (\<forall>i < length es. Suc n + i < k \<longrightarrow>
        \<not> expired c (expiry_clock (es ! i) name) \<lparr>at_time = t0, count = of_nat (Suc n + i)\<rparr>) \<Longrightarrow>
    length history = length es \<and>
    (\<forall>i < length es. (LogDeleting name \<in> set (history ! i)) = (Suc n + i = k))"
proof (induction es arbitrary: m n history)
  case Nil
  then show ?case by simp
next
  case (Cons e es)
  from Cons.prems(1) obtain m1 evs1 h where
    it: "iteration rnd c e m = (Inr m1, evs1)"
    and rest: "Terminate_loop rnd c es m1 = (Inr m', h)"
    and history: "history = evs1 # h"
    by (auto split: sum.splits prod.splits)
  from Cons.prems(4) history have one: "count_list evs1 (LogOverLimit name) = 1"
    and ones: "\<forall>evs \<in> set h. count_list evs (LogOverLimit name) = 1"
    by auto
  have obs: "observe t (m name) = \<lparr>at_time = t0, count = of_nat (Suc n)\<rparr>" for t
    using Cons.prems(2) by (simp add: observe_def)
  from Cons.prems(3) have le: "Suc n \<le> k" by simp
  have kill: "(killAfter c \<le>s of_nat (Suc n)) = (k = Suc n)"
    by (rule sle_of_nat_64 [OF k le])
  from iteration_observed_once [OF it one] obs kill
  have dec: "(LogDeleting name \<in> set evs1) = (k = Suc n)"
    and m1: "m1 name = (if k = Suc n \<or> expired c (expiry_clock e name) \<lparr>at_time = t0, count = of_nat (Suc n)\<rparr>
                        then None else Some \<lparr>at_time = t0, count = of_nat (Suc n)\<rparr>)"
    by auto
  show ?case
  proof (cases "k = Suc n")
    case True
    with Cons.prems(3) have "es = []" by simp
    with rest history dec True show ?thesis by auto
  next
    case False
    with le have lt: "Suc n < k" by simp
    with Cons.prems(5) [rule_format, of 0]
    have "\<not> expired c (expiry_clock e name) \<lparr>at_time = t0, count = of_nat (Suc n)\<rparr>"
      by simp
    with m1 False have m1': "m1 name = Some \<lparr>at_time = t0, count = of_nat (Suc n)\<rparr>" by simp
    from Cons.prems(3) have len: "Suc n + length es \<le> k" by simp
    have exp: "\<forall>i < length es. Suc (Suc n) + i < k \<longrightarrow>
        \<not> expired c (expiry_clock (es ! i) name) \<lparr>at_time = t0, count = of_nat (Suc (Suc n) + i)\<rparr>"
    proof (intro allI impI)
      fix i assume "i < length es" "Suc (Suc n) + i < k"
      with Cons.prems(5) [rule_format, of "Suc i"] show
        "\<not> expired c (expiry_clock (es ! i) name) \<lparr>at_time = t0, count = of_nat (Suc (Suc n) + i)\<rparr>"
        by simp
    qed
    from Cons.IH [OF rest m1' len ones exp]
    have IH: "length h = length es"
      "\<forall>i < length es. (LogDeleting name \<in> set (h ! i)) = (Suc (Suc n) + i = k)"
      by auto
    show ?thesis
    proof (intro conjI allI impI)
      show "length history = length (e # es)" using IH(1) history by simp
    next
      fix i assume "i < length (e # es)"
      then show "(LogDeleting name \<in> set (history ! i)) = (Suc n + i = k)"
        using IH(2) dec False history by (cases i) auto
    qed
  qed
qed

lemma streak_kills:
  assumes run: "Terminate_loop rnd c es m = (Inr m', history)"
    and fresh: "m name = None"
    and nonneg: "0 \<le>s killAfter c"
    and len: "int (length es) \<le> sint (killAfter c) + 1"
    and observed: "\<forall>evs \<in> set history. count_list evs (LogOverLimit name) = 1"
    and kept: "\<forall>i < length es. int i < sint (killAfter c) \<longrightarrow> (\<forall>j.
        \<not> expired c (expiry_clock (es ! i) name)
            \<lparr>at_time = time_Now (probes (es ! 0) j), count = of_nat i\<rparr>)"
  shows "\<forall>i < length es. (LogDeleting name \<in> set (history ! i)) = (int i = sint (killAfter c))"
proof (cases es)
  case Nil
  then show ?thesis by simp
next
  case (Cons e es')
  from nonneg have "0 \<le> sint (killAfter c)" by (simp add: word_sle_eq)
  then obtain k where k: "sint (killAfter c) = int k"
    using nonneg_int_cases by blast
  from run Cons obtain m1 evs1 h where
    it: "iteration rnd c e m = (Inr m1, evs1)"
    and rest: "Terminate_loop rnd c es' m1 = (Inr m', h)"
    and history: "history = evs1 # h"
    by (auto split: sum.splits prod.splits)
  from observed history have one: "count_list evs1 (LogOverLimit name) = 1"
    and ones: "\<forall>evs \<in> set h. count_list evs (LogOverLimit name) = 1"
    by auto
  have obs: "observe t (m name) = \<lparr>at_time = t, count = of_nat 0\<rparr>" for t
    using fresh by (simp add: observe_def)
  have kill: "(killAfter c \<le>s of_nat 0) = (k = 0)"
    by (rule sle_of_nat_64 [OF k]) simp
  have count_simp: "count \<lparr>at_time = t, count = v\<rparr> = v" for t v
    by simp
  from iteration_observed_once [OF it one] have
    "\<exists>j. (LogDeleting name \<in> set evs1) = (k = 0) \<and>
       m1 name = (if k = 0 \<or> expired c (expiry_clock e name) \<lparr>at_time = time_Now (probes e j), count = of_nat 0\<rparr>
                        then None else Some \<lparr>at_time = time_Now (probes e j), count = of_nat 0\<rparr>)"
    unfolding obs count_simp kill .
  then obtain j where
    dec: "(LogDeleting name \<in> set evs1) = (k = 0)"
    and m1: "m1 name = (if k = 0 \<or> expired c (expiry_clock e name) \<lparr>at_time = time_Now (probes e j), count = of_nat 0\<rparr>
                        then None else Some \<lparr>at_time = time_Now (probes e j), count = of_nat 0\<rparr>)"
    by blast
  show ?thesis
  proof (cases "k = 0")
    case True
    with len k Cons have "es' = []" by simp
    with rest history dec True k Cons show ?thesis by auto
  next
    case False
    with kept [rule_format, of 0 j] k Cons
    have "\<not> expired c (expiry_clock e name) \<lparr>at_time = time_Now (probes e j), count = of_nat 0\<rparr>"
      by simp
    with m1 False have m1': "m1 name = Some \<lparr>at_time = time_Now (probes e j), count = of_nat 0\<rparr>"
      by simp
    from len k Cons have len': "0 + length es' \<le> k" by simp
    have exp: "\<forall>i < length es'. Suc 0 + i < k \<longrightarrow>
        \<not> expired c (expiry_clock (es' ! i) name)
            \<lparr>at_time = time_Now (probes e j), count = of_nat (Suc 0 + i)\<rparr>"
    proof (intro allI impI)
      fix i assume "i < length es'" "Suc 0 + i < k"
      with kept [rule_format, of "Suc i" j] k Cons show
        "\<not> expired c (expiry_clock (es' ! i) name)
            \<lparr>at_time = time_Now (probes e j), count = of_nat (Suc 0 + i)\<rparr>"
        by simp
    qed
    from streak_continues [OF k rest m1' len' ones exp]
    have IH: "length h = length es'"
      "\<forall>i < length es'. (LogDeleting name \<in> set (h ! i)) = (Suc 0 + i = k)"
      by auto
    show ?thesis
    proof (intro allI impI)
      fix i assume "i < length es"
      then show "(LogDeleting name \<in> set (history ! i)) = (int i = sint (killAfter c))"
        using IH(2) dec False history k Cons by (cases i) auto
    qed
  qed
qed

text \<open>
  The count while the record stays. Take a run of \<open>k \<le> K + 1\<close> iterations that returns
  no error, with kill-after \<open>K \<ge> 0\<close>, starting without a record for the pod name. If every
  iteration logs the name over the limit exactly once and no expiry loop removes the
  record, the kill decision is taken in iteration \<open>i\<close>, counted from 0, exactly when
  \<open>i = K\<close>, and a delete request is sent in that iteration unless the run is dry.
\<close>

lemma kill_on_crossing:
  assumes run: "Terminate_loop rnd c es m = (Inr m', history)"
    and fresh: "m name = None"
    and nonneg: "0 \<le>s killAfter c"
    and len: "int (length es) \<le> sint (killAfter c) + 1"
    and observed: "\<forall>evs \<in> set history. count_list evs (LogOverLimit name) = 1"
    and kept: "\<forall>i < length es. int i < sint (killAfter c) \<longrightarrow> (\<forall>j.
        \<not> expired c (expiry_clock (es ! i) name)
            \<lparr>at_time = time_Now (probes (es ! 0) j), count = of_nat i\<rparr>)"
  shows "\<forall>i < length es.
           (LogDeleting name \<in> set (history ! i)) = (int i = sint (killAfter c)) \<and>
           delete_requested name (history ! i) = (\<not> dryRun c \<and> int i = sint (killAfter c))"
proof (intro allI impI)
  fix i assume i: "i < length es"
  from streak_kills [OF assms] i
  have d: "(LogDeleting name \<in> set (history ! i)) = (int i = sint (killAfter c))" by blast
  have "length history = length es"
    using run by (rule Terminate_loop_length)
  with i have "history ! i \<in> set history" by simp
  with Terminate_loop_delete_requested [of rnd c es m name] run
  have "delete_requested name (history ! i) = (\<not> dryRun c \<and> LogDeleting name \<in> set (history ! i))"
    by simp
  with d show "(LogDeleting name \<in> set (history ! i)) = (int i = sint (killAfter c)) \<and>
           delete_requested name (history ! i) = (\<not> dryRun c \<and> int i = sint (killAfter c))"
    by simp
qed

text \<open>
  Kill-after 2, polling every second: the pod \<open>hog\<close> is over the limit three times and
  is deleted on the third.
\<close>

lemma kill_on_crossing_example:
  "LogDeleting ''hog'' \<notin> set (snd (Terminate_loop exact flags
       [world 1024 0, world 1024 1000000000, world 1024 2000000000] Map.empty) ! 0)
   \<and> LogDeleting ''hog'' \<notin> set (snd (Terminate_loop exact flags
       [world 1024 0, world 1024 1000000000, world 1024 2000000000] Map.empty) ! 1)
   \<and> LogDeleting ''hog'' \<in> set (snd (Terminate_loop exact flags
       [world 1024 0, world 1024 1000000000, world 1024 2000000000] Map.empty) ! 2)
   \<and> delete_requested ''hog'' (snd (Terminate_loop exact flags
       [world 1024 0, world 1024 1000000000, world 1024 2000000000] Map.empty) ! 2)"
proof -
  let ?es = "[world 1024 0, world 1024 1000000000, world 1024 2000000000]"
  let ?h = "[[MetricsGet ''prod'' ''hog'', LogOverLimit ''hog'', Sleep 1000000000],
             [MetricsGet ''prod'' ''hog'', LogOverLimit ''hog'', Sleep 1000000000],
             [MetricsGet ''prod'' ''hog'', LogOverLimit ''hog'', LogDeleting ''hog'',
              PodDelete ''prod'' ''hog'' (Some 30), Sleep 1000000000, Sleep 1000000000]]"
  have "\<exists>m'. Terminate_loop exact flags ?es Map.empty = (Inr m', ?h)"
    by (simp add: run_defs)
  then obtain m' where run: "Terminate_loop exact flags ?es Map.empty = (Inr m', ?h)"
    by blast
  have fresh: "(Map.empty :: string \<rightharpoonup> overLimit) ''hog'' = None" by simp
  have nonneg: "0 \<le>s killAfter flags" by (simp add: flags_def word_sle_eq)
  have len: "int (length ?es) \<le> sint (killAfter flags) + 1" by (simp add: flags_def)
  have observed: "\<forall>evs \<in> set ?h. count_list evs (LogOverLimit ''hog'') = 1" by simp
  have kept: "\<forall>i < length ?es. int i < sint (killAfter flags) \<longrightarrow> (\<forall>j.
        \<not> expired flags (expiry_clock (?es ! i) ''hog'')
            \<lparr>at_time = time_Now (probes (?es ! 0) j), count = of_nat i\<rparr>)"
    by (auto simp: less_Suc_eq run_defs)
  note k = kill_on_crossing [OF run fresh nonneg len observed kept, rule_format]
  from k [of 0] k [of 1] k [of 2]
  have "LogDeleting ''hog'' \<notin> set (?h ! 0) \<and> LogDeleting ''hog'' \<notin> set (?h ! 1)
     \<and> LogDeleting ''hog'' \<in> set (?h ! 2) \<and> delete_requested ''hog'' (?h ! 2)"
    by (simp add: flags_def)
  with run show ?thesis by simp
qed

text \<open>
  Claim C1. With kill-after \<open>K\<close>, a pod over the limit at \<open>k\<close> consecutive checks is
  killed if and only if \<open>k \<ge> K + 1\<close>, at the \<open>(K+1)\<close>-th. The code does so when it polls
  every second (the last conjunct: kill-after 2, deleted at the third check) and does
  not when it polls every five seconds: the pod \<open>hog\<close> is at 100 percent at six
  consecutive checks and no kill is decided. At every second check the expiry loop
  finds the record five seconds old against a window of \<open>killSleep * 2\<close>, two seconds,
  and removes it, so the next check starts a new record with count 0. The time
  \<^verbatim>\<open>over.at\<close> is never refreshed, so the loop removes the record of a pod that is over
  the limit at every check, where its comment says it expires the pods that are not over
  the limit any more.
\<close>

theorem slow_poll_never_kills:
  "killAfter slow_poll = 2
   \<and> snd (Terminate exact slow_poll
          [world 1024 0, world 1024 5000000000, world 1024 10000000000])
     = [[MetricsGet ''prod'' ''hog'', LogOverLimit ''hog'', Sleep 5000000000],
        [MetricsGet ''prod'' ''hog'', LogOverLimit ''hog'', Sleep 5000000000],
        [MetricsGet ''prod'' ''hog'', LogOverLimit ''hog'', Sleep 5000000000]]
   \<and> tracked (Terminate exact slow_poll
          [world 1024 0, world 1024 5000000000, world 1024 10000000000]) ''hog''
     = Some \<lparr>at_time = 10000000000, count = 0\<rparr>
   \<and> tracked (Terminate exact slow_poll [world 1024 0, world 1024 5000000000]) ''hog'' = None
   \<and> snd (Terminate exact slow_poll
          [world 1024 0, world 1024 5000000000, world 1024 10000000000,
           world 1024 15000000000, world 1024 20000000000, world 1024 25000000000])
     = [[MetricsGet ''prod'' ''hog'', LogOverLimit ''hog'', Sleep 5000000000],
        [MetricsGet ''prod'' ''hog'', LogOverLimit ''hog'', Sleep 5000000000],
        [MetricsGet ''prod'' ''hog'', LogOverLimit ''hog'', Sleep 5000000000],
        [MetricsGet ''prod'' ''hog'', LogOverLimit ''hog'', Sleep 5000000000],
        [MetricsGet ''prod'' ''hog'', LogOverLimit ''hog'', Sleep 5000000000],
        [MetricsGet ''prod'' ''hog'', LogOverLimit ''hog'', Sleep 5000000000]]
   \<and> snd (Terminate exact flags
          [world 1024 0, world 1024 1000000000, world 1024 2000000000])
     = [[MetricsGet ''prod'' ''hog'', LogOverLimit ''hog'', Sleep 1000000000],
        [MetricsGet ''prod'' ''hog'', LogOverLimit ''hog'', Sleep 1000000000],
        [MetricsGet ''prod'' ''hog'', LogOverLimit ''hog'', LogDeleting ''hog'',
         PodDelete ''prod'' ''hog'' (Some 30), Sleep 1000000000, Sleep 1000000000]]"
  by (simp add: run_defs)



section \<open>The count and the candidate list\<close>

lemma pod_body_observations_le:
  "count_list (snd (pod_body rnd c pr pod s)) (LogOverLimit name) \<le> (if Name pod = name then 1 else 0)"
  using pod_body_cases [of rnd c pr pod s] by (auto split: if_splits)

lemma pod_loop_observations_le:
  "count_list (snd (pod_loop rnd c prs i pods s)) (LogOverLimit name) \<le> count_list (map Name pods) name"
proof (induction pods arbitrary: i s)
  case Nil
  show ?case by simp
next
  case (Cons pod pods)
  obtain r evs1 where body: "pod_body rnd c (prs i) pod s = (r, evs1)"
    by (cases "pod_body rnd c (prs i) pod s")
  from pod_body_observations_le [of rnd c "prs i" pod s name] body
  have b: "count_list evs1 (LogOverLimit name) \<le> (if Name pod = name then 1 else 0)" by simp
  show ?case
  proof (cases r)
    case (Inl err)
    with body b show ?thesis by (auto split: if_splits)
  next
    case (Inr s1)
    obtain r2 evs2 where rest: "pod_loop rnd c prs (Suc i) pods s1 = (r2, evs2)"
      by (cases "pod_loop rnd c prs (Suc i) pods s1")
    from Cons.IH [of "Suc i" s1] rest
    have "count_list evs2 (LogOverLimit name) \<le> count_list (map Name pods) name" by simp
    with b body Inr rest show ?thesis by (auto split: if_splits)
  qed
qed

lemma pod_loop_count:
  "pod_loop rnd c prs i pods s = (Inr s', evs) \<Longrightarrow> podsToKill s' name = Some over' \<Longrightarrow>
   (case podsToKill s name of
      Some over \<Rightarrow> over' = over\<lparr>count := count over + of_nat (count_list evs (LogOverLimit name))\<rparr>
    | None \<Rightarrow> 0 < count_list evs (LogOverLimit name) \<and>
        (\<exists>j. over' = \<lparr>at_time = time_Now (prs j),
                       count = of_nat (count_list evs (LogOverLimit name) - 1)\<rparr>))"
proof (induction pods arbitrary: i s evs)
  case Nil
  then show ?case by auto
next
  case (Cons pod pods)
  from Cons.prems(1) obtain s1 evs1 evs2 where
    body: "pod_body rnd c (prs i) pod s = (Inr s1, evs1)"
    and rest: "pod_loop rnd c prs (Suc i) pods s1 = (Inr s', evs2)"
    and evs: "evs = evs1 @ evs2"
    by (auto split: prod.splits sum.splits)
  note ih = Cons.IH [OF rest Cons.prems(2)]
  show ?case
  proof (cases "LogOverLimit name \<in> set evs1")
    case False
    then have "count_list evs1 (LogOverLimit name) = 0" by (simp add: count_list_0_iff)
    with ih pod_body_unobserved [OF body False] evs show ?thesis
      by (auto split: option.splits)
  next
    case True
    note obs = pod_body_observed [OF body True]
    show ?thesis
    proof (cases "killAfter c \<le>s count (observe (time_Now (prs i)) (podsToKill s name))")
      case True
      with obs have "killed s1" "podsToKill s1 name = None" by auto
      with rest have "podsToKill s' name = None" by (simp add: pod_loop_killed)
      with Cons.prems(2) show ?thesis by simp
    next
      case False
      with obs have s1: "podsToKill s1 name = Some (observe (time_Now (prs i)) (podsToKill s name))"
        and one: "count_list evs1 (LogOverLimit name) = 1" by auto
      from ih s1 have
        over': "over' = (observe (time_Now (prs i)) (podsToKill s name))
                  \<lparr>count := count (observe (time_Now (prs i)) (podsToKill s name))
                             + of_nat (count_list evs2 (LogOverLimit name))\<rparr>"
        by simp
      show ?thesis
      proof (cases "podsToKill s name")
        case None
        with over' one evs show ?thesis
          by (auto simp: observe_def intro!: exI [of _ i])
      next
        case (Some over)
        with over' one evs show ?thesis
          by (simp add: observe_def add.assoc)
      qed
    qed
  qed
qed

lemma iteration_count:
  assumes it: "iteration rnd c e m = (Inr m', evs)"
    and pods: "getPods (apiserver e) (namespace c) (serviceNames c) (deploymentNames c) = Inr pods"
    and before: "m name = Some over"
    and after: "m' name = Some over'"
  shows "over' = over\<lparr>count := count over + of_nat (count_list evs (LogOverLimit name))\<rparr>
       \<and> count_list evs (LogOverLimit name) \<le> count_list (map Name pods) name
       \<and> (count_list (map Name pods) name \<le> 1 \<longrightarrow>
            count over' = count over \<or> count over' = count over + 1)"
proof -
  from it pods obtain s evs0 where
    loop: "pod_loop rnd c (probes e) 0 pods \<lparr>podsToKill = m, killed = False\<rparr> = (Inr s, evs0)"
    and m': "m' = expire c (expiry_clock e) (podsToKill s)"
    and evs: "evs = evs0 @ [Sleep (sleep c)]"
    by (auto simp: iteration_def split: sum.splits prod.splits)
  from after m' have s: "podsToKill s name = Some over'"
    by (auto simp: expire_def split: option.splits if_splits)
  from pod_loop_count [OF loop s] before evs
  have eq: "over' = over\<lparr>count := count over + of_nat (count_list evs (LogOverLimit name))\<rparr>"
    by simp
  from pod_loop_observations_le [of rnd c "probes e" 0 pods "\<lparr>podsToKill = m, killed = False\<rparr>" name]
    loop evs
  have le: "count_list evs (LogOverLimit name) \<le> count_list (map Name pods) name" by simp
  have "count over' = count over \<or> count over' = count over + 1"
    if "count_list (map Name pods) name \<le> 1"
  proof -
    from that le have "count_list evs (LogOverLimit name) = 0 \<or> count_list evs (LogOverLimit name) = 1"
      by linarith
    with eq show ?thesis by auto
  qed
  with eq le show ?thesis by blast
qed

text \<open>
  Claim C4, as the code has it. For a record that exists before an iteration and after
  it, the count grows by the number of times the pod name was logged over the limit in
  that iteration (in 64-bit arithmetic), and the first-seen time stays. That number is
  at most the number of occurrences of the name in the candidate list, which is not
  deduplicated.
\<close>

theorem count_follows_observations:
  assumes it: "iteration rnd c e m = (Inr m', evs)"
    and pods: "getPods (apiserver e) (namespace c) (serviceNames c) (deploymentNames c) = Inr pods"
    and before: "m name = Some over"
    and after: "m' name = Some over'"
  shows "over' = over\<lparr>count := count over + of_nat (count_list evs (LogOverLimit name))\<rparr>
       \<and> count_list evs (LogOverLimit name) \<le> count_list (map Name pods) name"
  using iteration_count [OF assms] by simp

text \<open>With the service filter alone the pod is listed once and its count goes from 0 to 1.\<close>

theorem count_follows_observations_witness:
  "tracked (iteration exact (both_filters\<lparr>deploymentNames := []\<rparr>) (world 1024 7)
        [''web-1'' \<mapsto> \<lparr>at_time = 0, count = 0\<rparr>]) ''web-1''
     = Some \<lparr>at_time = 0, count = 1\<rparr>
   \<and> count_list (map Name [demo_pod ''web-1'' ''Running'']) ''web-1'' = 1"
proof -
  let ?c = "both_filters\<lparr>deploymentNames := []\<rparr>"
  let ?m = "[''web-1'' \<mapsto> \<lparr>at_time = 0, count = 0\<rparr>]"
  let ?evs = "[MetricsGet ''prod'' ''web-1'', LogOverLimit ''web-1'', Sleep 1000000000]"
  have "\<exists>m'. iteration exact ?c (world 1024 7) ?m = (Inr m', ?evs)
              \<and> m' ''web-1'' = Some \<lparr>at_time = 0, count = 1\<rparr>"
    by (simp add: run_defs)
  then obtain m' where it: "iteration exact ?c (world 1024 7) ?m = (Inr m', ?evs)"
    and after: "m' ''web-1'' = Some \<lparr>at_time = 0, count = 1\<rparr>"
    by blast
  have pods: "getPods (apiserver (world 1024 7)) (namespace ?c) (serviceNames ?c) (deploymentNames ?c)
                = Inr [demo_pod ''web-1'' ''Running'']"
    by (simp add: run_defs)
  have before: "?m ''web-1'' = Some \<lparr>at_time = 0, count = 0\<rparr>" by simp
  from count_follows_observations [OF it pods before after] it after show ?thesis
    by (simp add: tracked_def demo_pod_def)
qed

text \<open>
  The service \<open>web\<close> and the deployment \<open>web\<close> both select the pod \<open>web-1\<close>, which is
  then twice in the candidate list: in one iteration its count goes from 0 to 2.
\<close>

theorem duplicate_counts_twice:
  "getPods demo_cluster ''prod'' [''web''] [''web'']
     = Inr [demo_pod ''web-1'' ''Running'', demo_pod ''web-1'' ''Running'']
   \<and> tracked (iteration exact both_filters (world 1024 7)
        [''web-1'' \<mapsto> \<lparr>at_time = 0, count = 0\<rparr>]) ''web-1''
     = Some \<lparr>at_time = 0, count = 2\<rparr>"
  by (simp add: run_defs)



section \<open>Dry run\<close>

lemma pod_body_dry_run:
  assumes "pods_Delete pr = None"
  shows "pod_body rnd (c\<lparr>dryRun := True\<rparr>) pr pod s =
           (fst (pod_body rnd (c\<lparr>dryRun := False\<rparr>) pr pod s),
            filter (\<lambda>ev. \<not> is_PodDelete ev) (snd (pod_body rnd (c\<lparr>dryRun := False\<rparr>) pr pod s)))"
  using assms
  by (simp add: pod_body_def Let_def split: list.splits sum.splits option.splits)

lemma pod_loop_dry_run:
  assumes "\<forall>i. pods_Delete (prs i) = None"
  shows "pod_loop rnd (c\<lparr>dryRun := True\<rparr>) prs i pods s =
           (fst (pod_loop rnd (c\<lparr>dryRun := False\<rparr>) prs i pods s),
            filter (\<lambda>ev. \<not> is_PodDelete ev) (snd (pod_loop rnd (c\<lparr>dryRun := False\<rparr>) prs i pods s)))"
proof (induction pods arbitrary: i s)
  case Nil
  show ?case by simp
next
  case (Cons pod pods)
  from assms have "pods_Delete (prs i) = None" by simp
  note b = pod_body_dry_run [OF this, of rnd c pod s]
  show ?case
    by (simp add: b Cons.IH split: prod.splits sum.splits)
qed

lemma expire_dryRun: "expire (c\<lparr>dryRun := b\<rparr>) = expire c"
  by (simp add: expire_def expired_def fun_eq_iff cong: option.case_cong if_cong)

lemma iteration_dry_run:
  assumes "\<forall>i. pods_Delete (probes e i) = None"
  shows "iteration rnd (c\<lparr>dryRun := True\<rparr>) e m =
           (fst (iteration rnd (c\<lparr>dryRun := False\<rparr>) e m),
            filter (\<lambda>ev. \<not> is_PodDelete ev) (snd (iteration rnd (c\<lparr>dryRun := False\<rparr>) e m)))"
  by (simp add: iteration_def pod_loop_dry_run [OF assms] expire_dryRun
      split: prod.splits sum.splits)

lemma Terminate_loop_dry_run:
  assumes "\<forall>e \<in> set es. \<forall>i. pods_Delete (probes e i) = None"
  shows "Terminate_loop rnd (c\<lparr>dryRun := True\<rparr>) es m =
           (fst (Terminate_loop rnd (c\<lparr>dryRun := False\<rparr>) es m),
            map (filter (\<lambda>ev. \<not> is_PodDelete ev)) (snd (Terminate_loop rnd (c\<lparr>dryRun := False\<rparr>) es m)))"
  using assms
proof (induction es arbitrary: m)
  case Nil
  show ?case by simp
next
  case (Cons e es)
  then have e: "\<forall>i. pods_Delete (probes e i) = None"
    and es: "\<forall>e \<in> set es. \<forall>i. pods_Delete (probes e i) = None" by auto
  show ?case
    by (simp add: iteration_dry_run [OF e] Cons.IH [OF es] split: prod.splits sum.splits)
qed

lemma pod_body_no_delete:
  "dryRun c \<Longrightarrow> filter is_PodDelete (snd (pod_body rnd c pr pod s)) = []"
  using pod_body_cases [of rnd c pr pod s] by auto

lemma pod_loop_no_delete:
  "dryRun c \<Longrightarrow> filter is_PodDelete (snd (pod_loop rnd c prs i pods s)) = []"
proof (induction pods arbitrary: i s)
  case Nil
  show ?case by simp
next
  case (Cons pod pods)
  obtain r evs1 where body: "pod_body rnd c (prs i) pod s = (r, evs1)"
    by (cases "pod_body rnd c (prs i) pod s")
  from pod_body_no_delete [OF Cons.prems, of rnd "prs i" pod s] body
  have b: "filter is_PodDelete evs1 = []" by simp
  show ?case
  proof (cases r)
    case (Inl err)
    with body b show ?thesis by simp
  next
    case (Inr s1)
    obtain r2 evs2 where rest: "pod_loop rnd c prs (Suc i) pods s1 = (r2, evs2)"
      by (cases "pod_loop rnd c prs (Suc i) pods s1")
    from Cons.IH [OF Cons.prems, of "Suc i" s1] rest
    have "filter is_PodDelete evs2 = []" by simp
    with b body Inr rest show ?thesis by simp
  qed
qed

lemma iteration_no_delete:
  assumes "dryRun c"
  shows "filter is_PodDelete (snd (iteration rnd c e m)) = []"
proof (cases "getPods (apiserver e) (namespace c) (serviceNames c) (deploymentNames c)")
  case (Inl err)
  then show ?thesis by (simp add: iteration_def)
next
  case (Inr pods)
  obtain r evs where loop:
    "pod_loop rnd c (probes e) 0 pods \<lparr>podsToKill = m, killed = False\<rparr> = (r, evs)"
    by (cases "pod_loop rnd c (probes e) 0 pods \<lparr>podsToKill = m, killed = False\<rparr>")
  from pod_loop_no_delete [OF assms, of rnd "probes e" 0 pods "\<lparr>podsToKill = m, killed = False\<rparr>"] loop
  have "filter is_PodDelete evs = []" by simp
  with Inr loop show ?thesis
    by (cases r) (simp_all add: iteration_def)
qed

lemma Terminate_loop_no_delete:
  assumes "dryRun c"
  shows "concat (map (filter is_PodDelete) (snd (Terminate_loop rnd c es m))) = []"
proof (induction es arbitrary: m)
  case Nil
  show ?case by simp
next
  case (Cons e es)
  obtain r evs where it: "iteration rnd c e m = (r, evs)"
    by (cases "iteration rnd c e m")
  from iteration_no_delete [OF assms, of rnd e m] it
  have b: "filter is_PodDelete evs = []" by simp
  show ?case
  proof (cases r)
    case (Inl err)
    with it b show ?thesis by simp
  next
    case (Inr m1)
    obtain r2 h where rest: "Terminate_loop rnd c es m1 = (r2, h)"
      by (cases "Terminate_loop rnd c es m1")
    from Cons.IH [of m1] rest have "concat (map (filter is_PodDelete) h) = []" by simp
    with it b Inr rest show ?thesis by simp
  qed
qed

text \<open>
  Claim C7, as the code has it. On inputs where no delete request is refused, the dry
  run and the real run agree after every number \<open>n\<close> of iterations: the same result (the
  same error, or the same map of records), and the same events iteration by iteration
  once the delete requests are taken out of the real run's. The dry run sends no delete
  request, whatever the input.
\<close>

theorem dry_run_same_decisions:
  assumes "\<forall>e \<in> set es. \<forall>i. pods_Delete (probes e i) = None"
  shows "fst (Terminate_loop rnd (c\<lparr>dryRun := True\<rparr>) (take n es) m)
           = fst (Terminate_loop rnd (c\<lparr>dryRun := False\<rparr>) (take n es) m)
       \<and> snd (Terminate_loop rnd (c\<lparr>dryRun := True\<rparr>) (take n es) m)
           = map (filter (\<lambda>ev. \<not> is_PodDelete ev))
               (snd (Terminate_loop rnd (c\<lparr>dryRun := False\<rparr>) (take n es) m))
       \<and> concat (map (filter is_PodDelete)
           (snd (Terminate_loop rnd (c\<lparr>dryRun := True\<rparr>) (take n es) m))) = []"
proof -
  from assms have "\<forall>e \<in> set (take n es). \<forall>i. pods_Delete (probes e i) = None"
    by (auto dest: in_set_takeD)
  from Terminate_loop_dry_run [OF this, of rnd c m]
    Terminate_loop_no_delete [of "c\<lparr>dryRun := True\<rparr>" rnd "take n es" m]
  show ?thesis by simp
qed

text \<open>The three iterations that end in the deletion of \<open>hog\<close>, dry.\<close>

theorem dry_run_same_decisions_witness:
  "fst (Terminate_loop exact (flags\<lparr>dryRun := True\<rparr>)
          (take 3 [world 1024 0, world 1024 1000000000, world 1024 2000000000]) Map.empty)
     = fst (Terminate_loop exact (flags\<lparr>dryRun := False\<rparr>)
          (take 3 [world 1024 0, world 1024 1000000000, world 1024 2000000000]) Map.empty)
   \<and> snd (Terminate_loop exact (flags\<lparr>dryRun := True\<rparr>)
          (take 3 [world 1024 0, world 1024 1000000000, world 1024 2000000000]) Map.empty)
     = [[MetricsGet ''prod'' ''hog'', LogOverLimit ''hog'', Sleep 1000000000],
        [MetricsGet ''prod'' ''hog'', LogOverLimit ''hog'', Sleep 1000000000],
        [MetricsGet ''prod'' ''hog'', LogOverLimit ''hog'', LogDeleting ''hog'',
         Sleep 1000000000, Sleep 1000000000]]"
proof -
  let ?es = "[world 1024 0, world 1024 1000000000, world 1024 2000000000]"
  have ok: "\<forall>e \<in> set ?es. \<forall>i. pods_Delete (probes e i) = None"
    by (simp add: world_def sample_def)
  have real: "snd (Terminate_loop exact (flags\<lparr>dryRun := False\<rparr>) (take 3 ?es) Map.empty)
     = [[MetricsGet ''prod'' ''hog'', LogOverLimit ''hog'', Sleep 1000000000],
        [MetricsGet ''prod'' ''hog'', LogOverLimit ''hog'', Sleep 1000000000],
        [MetricsGet ''prod'' ''hog'', LogOverLimit ''hog'', LogDeleting ''hog'',
         PodDelete ''prod'' ''hog'' (Some 30), Sleep 1000000000, Sleep 1000000000]]"
    by (simp add: run_defs)
  from dry_run_same_decisions [OF ok, of exact flags 3 Map.empty] show ?thesis
    unfolding real by simp
qed

text \<open>
  Kill-after 0 and a cluster that refuses the delete request: the real run returns the
  error in its first iteration, the dry run is still going after two.
\<close>

theorem refused_delete_differs:
  "fst (Terminate exact eager [refusing 1024 0, refusing 1024 1000000000])
     = Inl (ApiFailure ''forbidden'')
   \<and> snd (Terminate exact eager [refusing 1024 0, refusing 1024 1000000000])
     = [[MetricsGet ''prod'' ''hog'', LogOverLimit ''hog'', LogDeleting ''hog'',
         PodDelete ''prod'' ''hog'' (Some 30)]]
   \<and> \<not> isl (fst (Terminate exact (eager\<lparr>dryRun := True\<rparr>)
                    [refusing 1024 0, refusing 1024 1000000000]))
   \<and> snd (Terminate exact (eager\<lparr>dryRun := True\<rparr>) [refusing 1024 0, refusing 1024 1000000000])
     = [[MetricsGet ''prod'' ''hog'', LogOverLimit ''hog'', LogDeleting ''hog'',
         Sleep 1000000000, Sleep 1000000000],
        [MetricsGet ''prod'' ''hog'', LogOverLimit ''hog'', LogDeleting ''hog'',
         Sleep 1000000000, Sleep 1000000000]]"
  by (simp add: run_defs)



section \<open>Cancellation\<close>











section \<open>The expiry loop\<close>

lemma sint_mul_succ_64:
  fixes a b :: "64 word"
  assumes "- (2 ^ 63) \<le> sint a * (sint b + 1)" and "sint a * (sint b + 1) < 2 ^ 63"
  shows "sint (a * (b + 1)) = sint a * (sint b + 1)"
proof -
  have "a * (b + 1) = word_of_int (sint a * (sint b + 1))"
    by simp
  then have "sint (a * (b + 1)) = signed_take_bit 63 (sint a * (sint b + 1))"
    by (simp only: signed_of_int) simp
  also have "\<dots> = sint a * (sint b + 1)"
    using assms by (intro signed_take_bit_int_eq_self) simp_all
  finally show ?thesis .
qed

lemma sint_time_Since:
  "sint (time_Since now t) = max (- (2 ^ 63)) (min (2 ^ 63 - 1) (now - t))"
proof -
  have "sint (time_Since now t) = signed_take_bit 63 (max (- (2 ^ 63)) (min (2 ^ 63 - 1) (now - t)))"
    unfolding time_Since_def by (simp only: signed_of_int) simp
  also have "\<dots> = max (- (2 ^ 63)) (min (2 ^ 63 - 1) (now - t))"
    by (intro signed_take_bit_int_eq_self) simp_all
  finally show ?thesis .
qed

lemma expired_exact:
  assumes "- (2 ^ 63) \<le> sint (killSleep c) * (sint (count over) + 1)"
    and "sint (killSleep c) * (sint (count over) + 1) < 2 ^ 63"
    and "now - at_time over < 2 ^ 63"
  shows "expired c now over = (sint (killSleep c) * (sint (count over) + 1) < now - at_time over)"
  using assms
  by (simp add: expired_def word_sless_alt sint_mul_succ_64 sint_time_Since) linarith

lemma iteration_unobserved:
  assumes "iteration rnd c e m = (Inr m', evs)" and "LogOverLimit name \<notin> set evs"
  shows "m' name = expire c (expiry_clock e) m name"
proof -
  from assms(1) obtain pods s evs0 where
    loop: "pod_loop rnd c (probes e) 0 pods \<lparr>podsToKill = m, killed = False\<rparr> = (Inr s, evs0)"
    and m': "m' = expire c (expiry_clock e) (podsToKill s)"
    and evs: "evs = evs0 @ [Sleep (sleep c)]"
    by (auto simp: iteration_def split: sum.splits prod.splits)
  from assms(2) evs have "LogOverLimit name \<notin> set evs0" by simp
  from pod_loop_unobserved [OF loop this] have "podsToKill s name = m name" by simp
  with m' show ?thesis by (simp add: expire_def)
qed

text \<open>
  Claim C3. The expiry loop removes a record exactly when \<^verbatim>\<open>time.Since(over.at)\<close> is
  greater than \<^verbatim>\<open>killSleep*time.Duration(over.count+1)\<close>, and keeps every other record as
  it is. The two sides are 64-bit durations; whenever the product and the age fit in
  64 bits the test is the comparison of the exact numbers. A record whose pod name was
  not logged over the limit in an iteration reaches the expiry loop of that iteration
  unchanged and is removed or kept by this test.
\<close>

theorem expiry_removes_exactly:
  "expire c clock m name =
     (case m name of
        None \<Rightarrow> None
      | Some over \<Rightarrow>
          if killSleep c * (count over + 1) <s time_Since (clock name) (at_time over)
          then None else Some over)
   \<and> (\<forall>over. m name = Some over
         \<and> - (2 ^ 63) \<le> sint (killSleep c) * (sint (count over) + 1)
         \<and> sint (killSleep c) * (sint (count over) + 1) < 2 ^ 63
         \<and> clock name - at_time over < 2 ^ 63 \<longrightarrow>
         (expire c clock m name = None) =
           (sint (killSleep c) * (sint (count over) + 1) < clock name - at_time over))
   \<and> (\<forall>m' evs. iteration rnd c e m = (Inr m', evs) \<and> LogOverLimit name \<notin> set evs \<longrightarrow>
         m' name = expire c (expiry_clock e) m name)"
proof (intro conjI allI impI)
  show "expire c clock m name =
     (case m name of
        None \<Rightarrow> None
      | Some over \<Rightarrow>
          if killSleep c * (count over + 1) <s time_Since (clock name) (at_time over)
          then None else Some over)"
    by (simp add: expire_def expired_def split: option.splits)
next
  fix over
  assume a: "m name = Some over
         \<and> - (2 ^ 63) \<le> sint (killSleep c) * (sint (count over) + 1)
         \<and> sint (killSleep c) * (sint (count over) + 1) < 2 ^ 63
         \<and> clock name - at_time over < 2 ^ 63"
  then have "expired c (clock name) over =
      (sint (killSleep c) * (sint (count over) + 1) < clock name - at_time over)"
    by (intro expired_exact) simp_all
  with a show "(expire c clock m name = None) =
           (sint (killSleep c) * (sint (count over) + 1) < clock name - at_time over)"
    by (simp add: expire_def)
next
  fix m' evs
  assume "iteration rnd c e m = (Inr m', evs) \<and> LogOverLimit name \<notin> set evs"
  then show "m' name = expire c (expiry_clock e) m name"
    using iteration_unobserved by blast
qed

text \<open>
  A record with count 1 and kill-sleep one second: three seconds old it is removed,
  exactly two seconds old it is kept, and an iteration in which the pod uses half its
  limit removes the three-second-old record.
\<close>

theorem expiry_removes_exactly_witness:
  "expire flags (expiry_clock (world 512 3000000000))
       [''hog'' \<mapsto> \<lparr>at_time = 0, count = 1\<rparr>] ''hog'' = None
   \<and> expire flags (expiry_clock (world 512 2000000000))
       [''hog'' \<mapsto> \<lparr>at_time = 0, count = 1\<rparr>] ''hog'' = Some \<lparr>at_time = 0, count = 1\<rparr>
   \<and> tracked (iteration exact flags (world 512 3000000000)
       [''hog'' \<mapsto> \<lparr>at_time = 0, count = 1\<rparr>]) ''hog'' = None"
proof -
  let ?m = "[''hog'' \<mapsto> \<lparr>at_time = 0, count = 1\<rparr>]"
  let ?late = "expiry_clock (world 512 3000000000)"
  let ?edge = "expiry_clock (world 512 2000000000)"
  note late = expiry_removes_exactly [of flags ?late ?m "''hog''" exact "world 512 3000000000"]
  note edge = expiry_removes_exactly [of flags ?edge ?m "''hog''" exact "world 512 2000000000"]
  have fits: "?m ''hog'' = Some \<lparr>at_time = 0, count = 1\<rparr>
         \<and> - (2 ^ 63) \<le> sint (killSleep flags) * (sint (count \<lparr>at_time = 0, count = 1\<rparr>) + 1)
         \<and> sint (killSleep flags) * (sint (count \<lparr>at_time = 0, count = 1\<rparr>) + 1) < 2 ^ 63
         \<and> ?late ''hog'' - at_time \<lparr>at_time = 0, count = 1\<rparr> < 2 ^ 63"
    by (simp add: flags_def world_def)
  have fits': "?m ''hog'' = Some \<lparr>at_time = 0, count = 1\<rparr>
         \<and> - (2 ^ 63) \<le> sint (killSleep flags) * (sint (count \<lparr>at_time = 0, count = 1\<rparr>) + 1)
         \<and> sint (killSleep flags) * (sint (count \<lparr>at_time = 0, count = 1\<rparr>) + 1) < 2 ^ 63
         \<and> ?edge ''hog'' - at_time \<lparr>at_time = 0, count = 1\<rparr> < 2 ^ 63"
    by (simp add: flags_def world_def)
  from late fits have
    a: "(expire flags ?late ?m ''hog'' = None) =
          (sint (killSleep flags) * (sint (count \<lparr>at_time = 0, count = 1\<rparr>) + 1)
             < ?late ''hog'' - at_time \<lparr>at_time = 0, count = 1\<rparr>)"
    by blast
  from edge fits' have
    b: "(expire flags ?edge ?m ''hog'' = None) =
          (sint (killSleep flags) * (sint (count \<lparr>at_time = 0, count = 1\<rparr>) + 1)
             < ?edge ''hog'' - at_time \<lparr>at_time = 0, count = 1\<rparr>)"
    by blast
  from a have 1: "expire flags ?late ?m ''hog'' = None"
    by (simp add: flags_def world_def)
  from b have "expire flags ?edge ?m ''hog'' \<noteq> None"
    by (simp add: flags_def world_def)
  with edge have 2: "expire flags ?edge ?m ''hog'' = Some \<lparr>at_time = 0, count = 1\<rparr>"
    by (auto split: if_splits)
  have "\<exists>m'. iteration exact flags (world 512 3000000000) ?m
                = (Inr m', [MetricsGet ''prod'' ''hog'', Sleep 1000000000])"
    by (simp add: run_defs)
  then obtain m' where it: "iteration exact flags (world 512 3000000000) ?m
                = (Inr m', [MetricsGet ''prod'' ''hog'', Sleep 1000000000])"
    by blast
  with late have "m' ''hog'' = expire flags ?late ?m ''hog''"
    by simp
  with 1 it have 3: "tracked (iteration exact flags (world 512 3000000000) ?m) ''hog'' = None"
    by (simp add: tracked_def)
  from 1 2 3 show ?thesis by blast
qed



section \<open>A container without memory limit\<close>

text \<open>
  One pass of the body for a running pod whose first container declares no memory
  limit, or zero. The divisor is zero and the pod is sampled all the same. With positive
  usage the percentage is \<open>+\<infinity>\<close>, which is at least any limit; with zero usage it is
  not-a-number, the comparison fails and nothing is recorded. The rounding is any
  function that keeps 0 and maps numbers from 1 on to positive numbers, as rounding to
  binary64 does.
\<close>

lemma zero_limit_step:
  assumes rnd0: "rnd 0 = 0" and rnd1: "\<forall>x. 1 \<le> x \<longrightarrow> 0 < rnd x"
    and pod: "Containers pod = container0 # cs" "Phase pod = ''Running''" "\<not> killed s"
    and limit: "Limits container0 ''memory'' = None \<or> Limits container0 ''memory'' = Some 0"
    and metrics: "metrics_Get pr = Inr podMetrics" "MetricsContainers podMetrics = metrics0 # ms"
  shows "(0 <s Memory (Usage metrics0) \<longrightarrow>
            percentage_of rnd (Memory (Usage metrics0)) (Memory (Limits container0)) = PosInf
          \<and> take 2 (snd (pod_body rnd c pr pod s)) =
              [MetricsGet (Namespace pod) (Name pod), LogOverLimit (Name pod)]
          \<and> (if killAfter c \<le>s count (observe (time_Now pr) (podsToKill s (Name pod)))
             then LogDeleting (Name pod) \<in> set (snd (pod_body rnd c pr pod s))
             else fst (pod_body rnd c pr pod s) =
                    Inr (s\<lparr>podsToKill := (podsToKill s)
                           (Name pod \<mapsto> observe (time_Now pr) (podsToKill s (Name pod)))\<rparr>)))
       \<and> (Memory (Usage metrics0) = 0 \<longrightarrow>
            percentage_of rnd (Memory (Usage metrics0)) (Memory (Limits container0)) = NaN
          \<and> pod_body rnd c pr pod s = (Inr s, [MetricsGet (Namespace pod) (Name pod)]))"
proof -
  from limit have l0: "Memory (Limits container0) = 0"
    by (auto simp: Memory_def)
  have pos: "percentage_of rnd (Memory (Usage metrics0)) 0 = PosInf"
    if "0 <s Memory (Usage metrics0)"
  proof -
    from that have "1 \<le> sint (Memory (Usage metrics0))"
      by (simp add: word_sless_alt)
    then have "1 \<le> (of_int (sint (Memory (Usage metrics0))) :: rat)"
      by (simp only: of_int_1_le_iff)
    with rnd1 have "0 < rnd (of_int (sint (Memory (Usage metrics0))))" by blast
    then show ?thesis
      by (simp add: percentage_of_def float64_of_int64_def rnd0)
  qed
  have nan: "percentage_of rnd 0 0 = NaN"
    by (simp add: percentage_of_def float64_of_int64_def rnd0)
  show ?thesis
    using pod metrics l0 pos nan
    by (auto simp: pod_body_def Let_def float64_of_int64_def split: option.splits)
qed

text \<open>The pod \<open>free\<close> has no limit: usage 1024 and usage 0.\<close>

lemma zero_limit_example:
  "percentage_of exact 1024 (Memory Map.empty) = PosInf
   \<and> pod_body exact flags (sample 1024 0) unlimited \<lparr>podsToKill = Map.empty, killed = False\<rparr>
       = (Inr \<lparr>podsToKill = [''free'' \<mapsto> \<lparr>at_time = 0, count = 0\<rparr>], killed = False\<rparr>,
          [MetricsGet ''prod'' ''free'', LogOverLimit ''free''])
   \<and> LogDeleting ''free'' \<in> set (snd (pod_body exact eager (sample 1024 0) unlimited
          \<lparr>podsToKill = Map.empty, killed = False\<rparr>))
   \<and> percentage_of exact 0 (Memory Map.empty) = NaN
   \<and> pod_body exact flags (sample 0 0) unlimited \<lparr>podsToKill = Map.empty, killed = False\<rparr>
       = (Inr \<lparr>podsToKill = Map.empty, killed = False\<rparr>, [MetricsGet ''prod'' ''free''])"
proof -
  let ?s = "\<lparr>podsToKill = Map.empty, killed = False\<rparr>"
  let ?c0 = "\<lparr>Limits = Map.empty\<rparr>"
  let ?full = "\<lparr>Usage = [''memory'' \<mapsto> (1024::int64)]\<rparr>"
  let ?none = "\<lparr>Usage = [''memory'' \<mapsto> (0::int64)]\<rparr>"
  have r0: "exact 0 = 0" and r1: "\<forall>x. 1 \<le> x \<longrightarrow> 0 < exact x"
    by (simp_all add: exact_def)
  have pod: "Containers unlimited = ?c0 # []" "Phase unlimited = ''Running''" "\<not> killed ?s"
    by (simp_all add: unlimited_def)
  have limit: "Limits ?c0 ''memory'' = None \<or> Limits ?c0 ''memory'' = Some 0" by simp
  have full: "metrics_Get (sample 1024 0) = Inr \<lparr>MetricsContainers = [?full]\<rparr>"
    "MetricsContainers \<lparr>MetricsContainers = [?full]\<rparr> = ?full # []"
    by (simp_all add: sample_def)
  have none: "metrics_Get (sample 0 0) = Inr \<lparr>MetricsContainers = [?none]\<rparr>"
    "MetricsContainers \<lparr>MetricsContainers = [?none]\<rparr> = ?none # []"
    by (simp_all add: sample_def)
  have used: "0 <s Memory (Usage ?full)" "Memory (Usage ?none) = 0"
    by (simp_all add: Memory_def word_sless_alt)
  note over = zero_limit_step [OF r0 r1 pod limit full, of flags]
  note kill = zero_limit_step [OF r0 r1 pod limit full, of eager]
  note idle = zero_limit_step [OF r0 r1 pod limit none, of flags]
  have late: "\<not> killAfter flags \<le>s count (observe (time_Now (sample 1024 0)) (podsToKill ?s (Name unlimited)))"
    "killAfter eager \<le>s count (observe (time_Now (sample 1024 0)) (podsToKill ?s (Name unlimited)))"
    by (simp_all add: flags_def eager_def observe_def word_sle_eq)
  from over used(1) late(1) have
    1: "percentage_of exact (Memory (Usage ?full)) (Memory (Limits ?c0)) = PosInf"
    and 2: "take 2 (snd (pod_body exact flags (sample 1024 0) unlimited ?s))
              = [MetricsGet (Namespace unlimited) (Name unlimited), LogOverLimit (Name unlimited)]"
    and 3: "fst (pod_body exact flags (sample 1024 0) unlimited ?s)
              = Inr (?s\<lparr>podsToKill := (podsToKill ?s)
                      (Name unlimited \<mapsto> observe (time_Now (sample 1024 0)) (podsToKill ?s (Name unlimited)))\<rparr>)"
    by simp_all
  from kill used(1) late(2) have
    4: "LogDeleting (Name unlimited) \<in> set (snd (pod_body exact eager (sample 1024 0) unlimited ?s))"
    by simp
  from idle used(2) have
    5: "percentage_of exact (Memory (Usage ?none)) (Memory (Limits ?c0)) = NaN"
    and 6: "pod_body exact flags (sample 0 0) unlimited ?s
              = (Inr ?s, [MetricsGet (Namespace unlimited) (Name unlimited)])"
    by simp_all
  have evs: "snd (pod_body exact flags (sample 1024 0) unlimited ?s)
               = [MetricsGet ''prod'' ''free'', LogOverLimit ''free'']"
    by (simp add: run_defs)
  from 1 3 4 5 6 evs show ?thesis
    by (simp add: prod_eq_iff unlimited_def Memory_def observe_def sample_def)
qed

text \<open>
  The same, with the new record written out: a new record has count 0 and the time of
  this observation, an existing one has its count incremented, and the pod is deleted
  when that count has reached \<^verbatim>\<open>killAfter\<close>.
\<close>

lemma zero_limit_division:
  assumes rnd0: "rnd 0 = 0" and rnd1: "\<forall>x. 1 \<le> x \<longrightarrow> 0 < rnd x"
    and pod: "Containers pod = container0 # cs" "Phase pod = ''Running''" "\<not> killed s"
    and limit: "Limits container0 ''memory'' = None \<or> Limits container0 ''memory'' = Some 0"
    and metrics: "metrics_Get pr = Inr podMetrics" "MetricsContainers podMetrics = metrics0 # ms"
  shows "(0 <s Memory (Usage metrics0) \<longrightarrow>
            percentage_of rnd (Memory (Usage metrics0)) (Memory (Limits container0)) = PosInf
          \<and> take 2 (snd (pod_body rnd c pr pod s)) =
              [MetricsGet (Namespace pod) (Name pod), LogOverLimit (Name pod)]
          \<and> (if killAfter c \<le>s
                  (case podsToKill s (Name pod) of None \<Rightarrow> 0 | Some over \<Rightarrow> count over + 1)
             then LogDeleting (Name pod) \<in> set (snd (pod_body rnd c pr pod s))
             else fst (pod_body rnd c pr pod s) =
                    Inr (s\<lparr>podsToKill := (podsToKill s)
                           (Name pod \<mapsto>
                             (case podsToKill s (Name pod) of
                                None \<Rightarrow> \<lparr>at_time = time_Now pr, count = 0\<rparr>
                              | Some over \<Rightarrow> over\<lparr>count := count over + 1\<rparr>))\<rparr>)))
       \<and> (Memory (Usage metrics0) = 0 \<longrightarrow>
            percentage_of rnd (Memory (Usage metrics0)) (Memory (Limits container0)) = NaN
          \<and> pod_body rnd c pr pod s = (Inr s, [MetricsGet (Namespace pod) (Name pod)]))"
proof -
  have o: "observe (time_Now pr) (podsToKill s (Name pod)) =
             (case podsToKill s (Name pod) of
                None \<Rightarrow> \<lparr>at_time = time_Now pr, count = 0\<rparr>
              | Some over \<Rightarrow> over\<lparr>count := count over + 1\<rparr>)"
    by (simp add: observe_def split: option.splits)
  have k: "count (observe (time_Now pr) (podsToKill s (Name pod))) =
             (case podsToKill s (Name pod) of None \<Rightarrow> 0 | Some over \<Rightarrow> count over + 1)"
    by (simp add: observe_def split: option.splits)
  note z = zero_limit_step [OF assms, of c, unfolded k]
  from z show ?thesis
    unfolding o .
qed

text \<open>
  Claim C9. The pod \<open>free\<close> declares no memory limit and uses 1024 bytes: the
  percentage is \<open>+\<infinity>\<close> and at every check the pod is sampled and logged over the limit.
  Polling every second with kill-after 2 its count goes to 1 at the second check and it
  is deleted at the third. Polling every five seconds it is logged over the limit at six
  consecutive checks and never killed: as for the pod of claim C1, the expiry loop
  removes its record after every second check.
\<close>

theorem zero_limit_never_killed:
  "Limits (hd (Containers unlimited)) ''memory'' = None
   \<and> percentage_of exact 1024 (Memory (Limits (hd (Containers unlimited)))) = PosInf
   \<and> snd (Terminate exact flags
          [free_world 1024 0, free_world 1024 1000000000, free_world 1024 2000000000])
     = [[MetricsGet ''prod'' ''free'', LogOverLimit ''free'', Sleep 1000000000],
        [MetricsGet ''prod'' ''free'', LogOverLimit ''free'', Sleep 1000000000],
        [MetricsGet ''prod'' ''free'', LogOverLimit ''free'', LogDeleting ''free'',
         PodDelete ''prod'' ''free'' None, Sleep 1000000000, Sleep 1000000000]]
   \<and> tracked (Terminate exact flags [free_world 1024 0, free_world 1024 1000000000]) ''free''
     = Some \<lparr>at_time = 0, count = 1\<rparr>
   \<and> snd (Terminate exact slow_poll
          [free_world 1024 0, free_world 1024 5000000000, free_world 1024 10000000000,
           free_world 1024 15000000000, free_world 1024 20000000000,
           free_world 1024 25000000000])
     = [[MetricsGet ''prod'' ''free'', LogOverLimit ''free'', Sleep 5000000000],
        [MetricsGet ''prod'' ''free'', LogOverLimit ''free'', Sleep 5000000000],
        [MetricsGet ''prod'' ''free'', LogOverLimit ''free'', Sleep 5000000000],
        [MetricsGet ''prod'' ''free'', LogOverLimit ''free'', Sleep 5000000000],
        [MetricsGet ''prod'' ''free'', LogOverLimit ''free'', Sleep 5000000000],
        [MetricsGet ''prod'' ''free'', LogOverLimit ''free'', Sleep 5000000000]]
   \<and> tracked (Terminate exact slow_poll
          [free_world 1024 0, free_world 1024 5000000000]) ''free'' = None"
  by (simp add: run_defs)

end
